theory Spec2Isabelle
  imports Complex_Main "HOL-Library.AList" "HOL-Library.Multiset"
begin

section \<open>DBSTREAM: data model\<close>

text \<open>
  The embedding follows \<^verbatim>\<open>src/river/cluster/dbstream.py\<close>.

  \<^item> Python floats are modelled as exact reals (no rounding, no overflow, no NaN);
    \<^verbatim>\<open>2 ** e\<close> with a float exponent is \<open>2 powr e\<close>.
  \<^item> A Python \<^verbatim>\<open>dict\<close> is an association list in insertion order with distinct keys:
    \<open>map_of\<close> reads a key, \<open>AList.update\<close> is \<^verbatim>\<open>d[k] = v\<close> (in place when the key
    exists, appended otherwise), \<open>AList.delete\<close> is \<^verbatim>\<open>d.pop(k)\<close>.
  \<^item> \<^verbatim>\<open>DBSTREAMMicroCluster\<close> objects are mutable and shared by reference
    (\<^verbatim>\<open>micro_clusters\<close>, \<^verbatim>\<open>fixed_radius_nn\<close>, \<^verbatim>\<open>mcs_with_label_i\<close>, \<^verbatim>\<open>clusters\<close> all hold
    references to the same objects), so they live in an explicit object store \<open>heap\<close>:
    an address is an index into it, an allocation appends to it.
  \<^item> Every exception is a value of \<open>error\<close>; a method that mutates \<^verbatim>\<open>self\<close> returns the
    state it leaves behind together with the exception it raised, if any.
\<close>

datatype error = KeyError | RuntimeError | ZeroDivisionError | ValueError | TypeError
  | DimensionMismatch

type_synonym point = "(nat \<times> real) list"

type_synonym addr = nat

record micro_cluster =
  center :: point
  last_update :: int
  weight :: real

text \<open>\<^verbatim>\<open>DBSTREAMMicroCluster.__init__(x, last_update, weight)\<close>\<close>

definition DBSTREAMMicroCluster :: "point \<Rightarrow> int \<Rightarrow> real \<Rightarrow> micro_cluster" where
  "DBSTREAMMicroCluster x lu w = \<lparr>center = x, last_update = lu, weight = w\<rparr>"

record dbstream =
  time_stamp :: int
  clustering_threshold :: real
  fading_factor :: real
  cleanup_interval :: int
  minimum_weight :: real
  intersection_factor :: real
  n_clusters :: nat
  clusters :: "(int \<times> addr) list"
  centers :: "(int \<times> point) list"
  micro_clusters :: "(nat \<times> addr) list"
  s :: "(nat \<times> (nat \<times> real) list) list"
  s_t :: "(nat \<times> (nat \<times> int) list) list"
  heap :: "micro_cluster list"

text \<open>\<^verbatim>\<open>DBSTREAM.__init__\<close>: the clock at 0 and every container empty.\<close>

definition DBSTREAM :: "real \<Rightarrow> real \<Rightarrow> int \<Rightarrow> real \<Rightarrow> real \<Rightarrow> dbstream" where
  "DBSTREAM thr ff ci isf mw =
     \<lparr>time_stamp = 0, clustering_threshold = thr, fading_factor = ff,
      cleanup_interval = ci, minimum_weight = mw, intersection_factor = isf,
      n_clusters = 0, clusters = [], centers = [], micro_clusters = [],
      s = [], s_t = [], heap = []\<rparr>"

section \<open>Distance and neighbourhood\<close>

text \<open>
  Modelled from the spec: \<^verbatim>\<open>utils.math.minkowski_distance\<close> is not under src/. The spec
  (4.1) describes the distance as the Euclidean distance between two equal-dimension
  vectors, failing when the dimensions mismatch; \<^verbatim>\<open>_distance\<close> takes the square root of
  the Minkowski sum of order 2, so the helper returns \<open>\<Sum>k. \<bar>a[k] - b[k]\<bar> ^ p\<close> and fails
  when the two points do not have the same keys.
\<close>

definition minkowski_distance :: "point \<Rightarrow> point \<Rightarrow> nat \<Rightarrow> error + real" where
  "minkowski_distance a b p =
     (if set (map fst a) = set (map fst b)
      then Inr (sum_list (map (\<lambda>(k, v). \<bar>v - (case map_of b k of Some u \<Rightarrow> u | None \<Rightarrow> 0)\<bar> ^ p) a))
      else Inl DimensionMismatch)"

definition distance :: "point \<Rightarrow> point \<Rightarrow> error + real" where
  "distance point_a point_b =
     (case minkowski_distance point_a point_b 2 of
        Inl e \<Rightarrow> Inl e
      | Inr m \<Rightarrow> Inr (sqrt m))"

definition gaussian_neighborhood :: "dbstream \<Rightarrow> point \<Rightarrow> point \<Rightarrow> error + real" where
  "gaussian_neighborhood st point_a point_b =
     (case distance point_a point_b of
        Inl e \<Rightarrow> Inl e
      | Inr d \<Rightarrow>
          (let sigma = clustering_threshold st / 3 in
           if 2 * (sigma * sigma) = 0 then Inl ZeroDivisionError
           else Inr (exp (- (d * d) / (2 * (sigma * sigma))))))"

text \<open>
  \<^verbatim>\<open>_find_fixed_radius_nn\<close>: the scan keeps, in the order of \<^verbatim>\<open>micro_clusters\<close>, the
  identifier and the object of every micro-cluster whose center is closer to \<open>x\<close> than
  the threshold.
\<close>

fun fixed_radius_scan :: "dbstream \<Rightarrow> point \<Rightarrow> (nat \<times> addr) list \<Rightarrow> error + (nat \<times> addr) list" where
  "fixed_radius_scan st x [] = Inr []"
| "fixed_radius_scan st x ((i, a) # rest) =
     (case distance (center (heap st ! a)) x of
        Inl e \<Rightarrow> Inl e
      | Inr d \<Rightarrow>
          (case fixed_radius_scan st x rest of
             Inl e \<Rightarrow> Inl e
           | Inr nn \<Rightarrow> if d < clustering_threshold st then Inr ((i, a) # nn) else Inr nn))"

definition find_fixed_radius_nn :: "dbstream \<Rightarrow> point \<Rightarrow> error + (nat \<times> addr) list" where
  "find_fixed_radius_nn st x = fixed_radius_scan st x (micro_clusters st)"

section \<open>The micro-cluster merge\<close>

text \<open>
  \<^verbatim>\<open>DBSTREAMMicroCluster.merge\<close>. The comprehension runs over the keys of
  \<^verbatim>\<open>self.center\<close>; for each key it reads \<^verbatim>\<open>cluster.center[i]\<close> (KeyError when absent) and
  then divides by \<^verbatim>\<open>self.weight + cluster.weight\<close> (ZeroDivisionError when that is 0).
  The new center is assigned only when the whole comprehension has succeeded.
\<close>

fun merge_center :: "point \<Rightarrow> real \<Rightarrow> point \<Rightarrow> real \<Rightarrow> error + point" where
  "merge_center [] ws cc wc = Inr []"
| "merge_center ((i, v) # rest) ws cc wc =
     (case map_of cc i of
        None \<Rightarrow> Inl KeyError
      | Some u \<Rightarrow>
          if ws + wc = 0 then Inl ZeroDivisionError
          else (case merge_center rest ws cc wc of
                  Inl e \<Rightarrow> Inl e
                | Inr r \<Rightarrow> Inr ((i, (v * ws + u * wc) / (ws + wc)) # r)))"

definition merge :: "micro_cluster \<Rightarrow> micro_cluster \<Rightarrow> error + micro_cluster" where
  "merge self cluster =
     (case merge_center (center self) (weight self) (center cluster) (weight cluster) of
        Inl e \<Rightarrow> Inl e
      | Inr c \<Rightarrow> Inr (self\<lparr>center := c, weight := weight self + weight cluster\<rparr>))"

section \<open>Reclustering\<close>

type_synonym adjacency = "(nat \<times> (nat \<times> real) list) list"

text \<open>
  \<^verbatim>\<open>weighted_adjacency_matrix[i][j] = value\<close>, with the \<^verbatim>\<open>except KeyError\<close> branch that
  opens the row.
\<close>

definition adjacency_add :: "adjacency \<Rightarrow> nat \<Rightarrow> nat \<Rightarrow> real \<Rightarrow> adjacency" where
  "adjacency_add w i j v =
     (case map_of w i of
        Some row \<Rightarrow> AList.update i (AList.update j v row) w
      | None \<Rightarrow> AList.update i [(j, v)] w)"

fun adjacency_row :: "dbstream \<Rightarrow> nat \<Rightarrow> (nat \<times> real) list \<Rightarrow> adjacency \<Rightarrow> error + adjacency" where
  "adjacency_row st i [] w = Inr w"
| "adjacency_row st i ((j, sij) # row) w =
     (case map_of (micro_clusters st) i of
        None \<Rightarrow> Inl KeyError
      | Some a \<Rightarrow>
          if weight (heap st ! a) \<ge> minimum_weight st then
            (case map_of (micro_clusters st) j of
               None \<Rightarrow> Inl KeyError
             | Some b \<Rightarrow>
                 if weight (heap st ! b) \<ge> minimum_weight st then
                   (if (weight (heap st ! a) + weight (heap st ! b)) / 2 = 0
                    then Inl ZeroDivisionError
                    else (let v = sij / ((weight (heap st ! a) + weight (heap st ! b)) / 2) in
                          if v > intersection_factor st
                          then adjacency_row st i row (adjacency_add w i j v)
                          else adjacency_row st i row w))
                 else adjacency_row st i row w)
          else adjacency_row st i row w)"

fun adjacency_rows :: "dbstream \<Rightarrow> (nat \<times> (nat \<times> real) list) list \<Rightarrow> adjacency \<Rightarrow> error + adjacency" where
  "adjacency_rows st [] w = Inr w"
| "adjacency_rows st ((i, row) # rest) w =
     (case adjacency_row st i row w of
        Inl e \<Rightarrow> Inl e
      | Inr w' \<Rightarrow> adjacency_rows st rest w')"

definition generate_weighted_adjacency_matrix :: "dbstream \<Rightarrow> error + adjacency" where
  "generate_weighted_adjacency_matrix st = adjacency_rows st (s st) []"

type_synonym labels = "(nat \<times> int option) list"

text \<open>
  The inner \<^verbatim>\<open>for neighbor_neighbor in neighbor_neighbors\<close>: the neighbours that the
  source appends to the seed set are those whose label \<^verbatim>\<open>is not None\<close>.
\<close>

fun new_seeds :: "labels \<Rightarrow> nat list \<Rightarrow> error + nat list" where
  "new_seeds lbl [] = Inr []"
| "new_seeds lbl (n # ns) =
     (case map_of lbl n of
        None \<Rightarrow> Inl KeyError
      | Some l \<Rightarrow>
          (case new_seeds lbl ns of
             Inl e \<Rightarrow> Inl e
           | Inr r \<Rightarrow> if l \<noteq> None then Inr (n # r) else Inr r))"

definition unlabelled :: "labels \<Rightarrow> nat" where
  "unlabelled lbl = length (filter (\<lambda>p. snd p = None) lbl)"

lemma unlabelled_update:
  "map_of lbl h = Some None \<Longrightarrow> unlabelled (AList.update h (Some c) lbl) < unlabelled lbl"
proof (induction lbl)
  case Nil
  then show ?case by simp
next
  case (Cons p lbl)
  show ?case
  proof (cases "fst p = h")
    case True
    with Cons.prems have "snd p = None" by (cases p) simp
    with True show ?thesis by (simp add: unlabelled_def)
  next
    case False
    with Cons.prems have "map_of lbl h = Some None" by (cases p) simp
    from Cons.IH [OF this] False show ?thesis by (simp add: unlabelled_def)
  qed
qed

text \<open>
  The \<^verbatim>\<open>while seed_set\<close> loop of \<^verbatim>\<open>_generate_labels\<close>. A labelled head is popped; an
  unlabelled head is labelled and stays at the head of the deque (the next round pops
  it), and the labelled neighbours of the head are appended.
\<close>

function seed_loop :: "adjacency \<Rightarrow> int \<Rightarrow> labels \<Rightarrow> nat list \<Rightarrow> error + labels" where
  "seed_loop w count' lbl [] = Inr lbl"
| "seed_loop w count' lbl (h # q) =
     (case map_of lbl h of
        None \<Rightarrow> Inl KeyError
      | Some (Some l) \<Rightarrow> seed_loop w count' lbl q
      | Some None \<Rightarrow>
          (case map_of w h of
             None \<Rightarrow> seed_loop w count' (AList.update h (Some count') lbl) (h # q)
           | Some row \<Rightarrow>
               (case new_seeds (AList.update h (Some count') lbl) (map fst row) of
                  Inl e \<Rightarrow> Inl e
                | Inr nn \<Rightarrow> seed_loop w count' (AList.update h (Some count') lbl) (h # q @ nn))))"
  by pat_completeness auto
termination
  by (relation "measures [\<lambda>(w, count', lbl, q). unlabelled lbl, \<lambda>(w, count', lbl, q). length q]")
     (auto simp: unlabelled_update)

fun label_loop :: "adjacency \<Rightarrow> nat list \<Rightarrow> int \<Rightarrow> labels \<Rightarrow> error + labels" where
  "label_loop w [] count' lbl = Inr lbl"
| "label_loop w (index # rest) count' lbl =
     (case map_of lbl index of
        None \<Rightarrow> Inl KeyError
      | Some (Some l) \<Rightarrow> label_loop w rest count' lbl
      | Some None \<Rightarrow>
          (case map_of w index of
             None \<Rightarrow> label_loop w rest (count' + 1) (AList.update index (Some (count' + 1)) lbl)
           | Some row \<Rightarrow>
               (case seed_loop w (count' + 1) (AList.update index (Some (count' + 1)) lbl) (map fst row) of
                  Inl e \<Rightarrow> Inl e
                | Inr lbl' \<Rightarrow> label_loop w rest (count' + 1) lbl')))"

definition generate_labels :: "dbstream \<Rightarrow> adjacency \<Rightarrow> error + labels" where
  "generate_labels st weighted_adjacency_list =
     label_loop weighted_adjacency_list (map fst (micro_clusters st)) (- 1)
       (map (\<lambda>p. (fst p, None)) (micro_clusters st))"

text \<open>
  \<^verbatim>\<open>max(cluster_labels.values())\<close>: ValueError on an empty dictionary, TypeError when a
  label is \<^verbatim>\<open>None\<close>.
\<close>

fun max_label :: "labels \<Rightarrow> error + int" where
  "max_label [] = Inl ValueError"
| "max_label ((index, l) # rest) =
     (case l of
        None \<Rightarrow> Inl TypeError
      | Some v \<Rightarrow>
          if rest = [] then Inr v
          else (case max_label rest of Inl e \<Rightarrow> Inl e | Inr m \<Rightarrow> Inr (max v m)))"

text \<open>
  \<^verbatim>\<open>mcs_with_label_i\<close>: the objects (not copies) of the micro-clusters labelled \<open>i\<close>, in
  the order of the labels; its keys are 0, 1, 2, ..., so it is a list.
\<close>

fun mcs_with_label :: "dbstream \<Rightarrow> int \<Rightarrow> labels \<Rightarrow> error + addr list" where
  "mcs_with_label st i [] = Inr []"
| "mcs_with_label st i ((index, l) # rest) =
     (if l = Some i then
        (case map_of (micro_clusters st) index of
           None \<Rightarrow> Inl KeyError
         | Some a \<Rightarrow>
             (case mcs_with_label st i rest of
                Inl e \<Rightarrow> Inl e
              | Inr r \<Rightarrow> Inr (a # r)))
      else mcs_with_label st i rest)"

text \<open>
  \<^verbatim>\<open>macro_cluster = mcs_with_label_i[0]\<close> binds the macro-cluster to the first object
  itself, and \<^verbatim>\<open>macro_cluster.merge(mcs_with_label_i[m])\<close> assigns to its attributes: the
  object at address \<open>macro\<close> of the store is overwritten.
\<close>

fun merge_all :: "micro_cluster list \<Rightarrow> addr \<Rightarrow> addr list \<Rightarrow> error option \<times> micro_cluster list" where
  "merge_all h macro [] = (None, h)"
| "merge_all h macro (b # bs) =
     (case merge (h ! macro) (h ! b) of
        Inl e \<Rightarrow> (Some e, h)
      | Inr m \<Rightarrow> merge_all (h[macro := m]) macro bs)"

fun clusters_loop ::
  "dbstream \<Rightarrow> labels \<Rightarrow> int list \<Rightarrow> (int \<times> addr) list \<Rightarrow> (error + (int \<times> addr) list) \<times> dbstream" where
  "clusters_loop st lbl [] cl = (Inr cl, st)"
| "clusters_loop st lbl (i # rest) cl =
     (case mcs_with_label st i lbl of
        Inl e \<Rightarrow> (Inl e, st)
      | Inr [] \<Rightarrow> (Inl KeyError, st)
      | Inr (macro # others) \<Rightarrow>
          (case merge_all (heap st) macro others of
             (Some e, h) \<Rightarrow> (Inl e, st\<lparr>heap := h\<rparr>)
           | (None, h) \<Rightarrow> clusters_loop (st\<lparr>heap := h\<rparr>) lbl rest (AList.update i macro cl)))"

definition generate_clusters_from_labels ::
  "dbstream \<Rightarrow> labels \<Rightarrow> (error + nat \<times> (int \<times> addr) list) \<times> dbstream" where
  "generate_clusters_from_labels st cluster_labels =
     (case max_label cluster_labels of
        Inl e \<Rightarrow> (Inl e, st)
      | Inr m \<Rightarrow>
          (case clusters_loop st cluster_labels [0..m] [] of
             (Inl e, st') \<Rightarrow> (Inl e, st')
           | (Inr cl, st') \<Rightarrow> (Inr (length cl, cl), st')))"

definition recluster :: "dbstream \<Rightarrow> error option \<times> dbstream" where
  "recluster st =
     (case generate_weighted_adjacency_matrix st of
        Inl e \<Rightarrow> (Some e, st)
      | Inr weighted_adjacency_list \<Rightarrow>
          (case generate_labels st weighted_adjacency_list of
             Inl e \<Rightarrow> (Some e, st)
           | Inr lbl \<Rightarrow>
               (case generate_clusters_from_labels st lbl of
                  (Inl e, st') \<Rightarrow> (Some e, st')
                | (Inr (n, cl), st') \<Rightarrow>
                    (None, st'\<lparr>n_clusters := n, clusters := cl,
                               centers := map (\<lambda>(i, a). (i, center (heap st' ! a))) cl\<rparr>))))"

section \<open>Prediction\<close>

text \<open>
  The scan of \<^verbatim>\<open>predict_one\<close>; \<^verbatim>\<open>min_distance = math.inf\<close> is \<open>None\<close>, below which every
  real distance lies.
\<close>

fun closest_scan :: "point \<Rightarrow> (int \<times> point) list \<Rightarrow> real option \<Rightarrow> int \<Rightarrow> error + int" where
  "closest_scan x [] min_distance closest_cluster_index = Inr closest_cluster_index"
| "closest_scan x ((i, center_i) # rest) min_distance closest_cluster_index =
     (case distance center_i x of
        Inl e \<Rightarrow> Inl e
      | Inr d \<Rightarrow>
          if (case min_distance of None \<Rightarrow> True | Some m \<Rightarrow> d < m)
          then closest_scan x rest (Some d) i
          else closest_scan x rest min_distance closest_cluster_index)"

definition predict_one :: "dbstream \<Rightarrow> point \<Rightarrow> (error + int) \<times> dbstream" where
  "predict_one st x =
     (case recluster st of
        (Some e, st') \<Rightarrow> (Inl e, st')
      | (None, st') \<Rightarrow> (closest_scan x (centers st') None 0, st'))"

section \<open>The online update\<close>

text \<open>\<^verbatim>\<open>v * 2 ** (-self.fading_factor * (self.time_stamp - t)) + 1\<close>\<close>

definition fade_and_count :: "dbstream \<Rightarrow> real \<Rightarrow> int \<Rightarrow> real" where
  "fade_and_count st v t =
     v * 2 powr (- fading_factor st * real_of_int (time_stamp st - t)) + 1"

text \<open>
  The comprehension that moves a center \<open>c\<close> towards \<open>x\<close>: for every key \<open>j\<close> of the
  center, \<^verbatim>\<open>center[j] + gaussian_neighborhood(x, center) * (x[j] - center[j])\<close>.
\<close>

fun move_center :: "dbstream \<Rightarrow> point \<Rightarrow> point \<Rightarrow> point \<Rightarrow> error + point" where
  "move_center st x c [] = Inr []"
| "move_center st x c ((j, v) # rest) =
     (case gaussian_neighborhood st x c of
        Inl e \<Rightarrow> Inl e
      | Inr g \<Rightarrow>
          (case map_of x j of
             None \<Rightarrow> Inl KeyError
           | Some xj \<Rightarrow>
               (case move_center st x c rest of
                  Inl e \<Rightarrow> Inl e
                | Inr r \<Rightarrow> Inr ((j, v + g * (xj - v)) # r))))"

text \<open>
  The shared-density step for one pair \<open>j > i\<close>, with its two nested
  \<^verbatim>\<open>try ... except KeyError\<close>: an entry present in both \<^verbatim>\<open>s\<close> and \<^verbatim>\<open>s_t\<close> is faded and
  counted; otherwise the entry is set to 0 in both, and when row \<open>i\<close> is missing from
  either, the row is replaced by \<^verbatim>\<open>{j: 0}\<close> in both.
\<close>

definition update_shared_density :: "dbstream \<Rightarrow> nat \<Rightarrow> nat \<Rightarrow> dbstream" where
  "update_shared_density st i j =
     (case (map_of (s st) i, map_of (s_t st) i) of
        (Some row, Some trow) \<Rightarrow>
          (case (map_of row j, map_of trow j) of
             (Some v, Some t) \<Rightarrow>
               st\<lparr>s := AList.update i (AList.update j (fade_and_count st v t) row) (s st),
                  s_t := AList.update i (AList.update j (time_stamp st) trow) (s_t st)\<rparr>
           | _ \<Rightarrow>
               st\<lparr>s := AList.update i (AList.update j 0 row) (s st),
                  s_t := AList.update i (AList.update j 0 trow) (s_t st)\<rparr>)
      | _ \<Rightarrow>
          st\<lparr>s := AList.update i [(j, 0)] (s st),
             s_t := AList.update i [(j, 0)] (s_t st)\<rparr>)"

fun shared_density_loop :: "dbstream \<Rightarrow> nat \<Rightarrow> nat list \<Rightarrow> dbstream" where
  "shared_density_loop st i [] = st"
| "shared_density_loop st i (j # js) =
     shared_density_loop (if j > i then update_shared_density st i j else st) i js"

text \<open>
  The first loop over the neighbours. \<open>nn\<close> is \<^verbatim>\<open>neighbor_clusters\<close>; \<open>cc\<close> is
  \<^verbatim>\<open>current_centers\<close>. \<^verbatim>\<open>self.micro_clusters[i]\<close> is the object \<^verbatim>\<open>neighbor_clusters[i]\<close>: the
  loop never rebinds a key of \<^verbatim>\<open>micro_clusters\<close>. An exception leaves the weight of the
  current neighbour already updated.
\<close>

fun update_neighbors ::
  "dbstream \<Rightarrow> point \<Rightarrow> (nat \<times> addr) list \<Rightarrow> (nat \<times> addr) list \<Rightarrow> (nat \<times> point) list
     \<Rightarrow> error option \<times> dbstream \<times> (nat \<times> point) list" where
  "update_neighbors st x nn [] cc = (None, st, cc)"
| "update_neighbors st x nn ((i, a) # rest) cc =
     (let mc = heap st ! a;
          cc' = AList.update i (center mc) cc;
          mc1 = mc\<lparr>weight := fade_and_count st (weight mc) (last_update mc)\<rparr>;
          st1 = st\<lparr>heap := (heap st)[a := mc1]\<rparr>
      in case move_center st1 x (center mc1) (center mc1) of
           Inl e \<Rightarrow> (Some e, st1, cc')
         | Inr c \<Rightarrow>
             update_neighbors
               (shared_density_loop
                  (st1\<lparr>heap := (heap st1)[a := mc1\<lparr>center := c, last_update := time_stamp st\<rparr>]\<rparr>)
                  i (map fst nn))
               x nn rest cc')"

text \<open>
  The second loop ("prevent collapsing clusters"): the pairs \<open>j > i\<close> are visited in
  order, each test reads the centers as they stand at that moment, and a pair that is
  too close gets both centers back from \<^verbatim>\<open>current_centers\<close>.
\<close>

fun collapse_inner ::
  "dbstream \<Rightarrow> (nat \<times> point) list \<Rightarrow> nat \<Rightarrow> addr \<Rightarrow> (nat \<times> addr) list \<Rightarrow> error option \<times> dbstream" where
  "collapse_inner st cc i a [] = (None, st)"
| "collapse_inner st cc i a ((j, b) # rest) =
     (if j > i then
        (case distance (center (heap st ! a)) (center (heap st ! b)) of
           Inl e \<Rightarrow> (Some e, st)
         | Inr d \<Rightarrow>
             if d < clustering_threshold st then
               (case map_of cc i of
                  None \<Rightarrow> (Some KeyError, st)
                | Some ci \<Rightarrow>
                    (let st1 = st\<lparr>heap := (heap st)[a := (heap st ! a)\<lparr>center := ci\<rparr>]\<rparr> in
                     case map_of cc j of
                       None \<Rightarrow> (Some KeyError, st1)
                     | Some cj \<Rightarrow>
                         collapse_inner
                           (st1\<lparr>heap := (heap st1)[b := (heap st1 ! b)\<lparr>center := cj\<rparr>]\<rparr>)
                           cc i a rest))
             else collapse_inner st cc i a rest)
      else collapse_inner st cc i a rest)"

fun collapse_outer ::
  "dbstream \<Rightarrow> (nat \<times> point) list \<Rightarrow> (nat \<times> addr) list \<Rightarrow> (nat \<times> addr) list \<Rightarrow> error option \<times> dbstream" where
  "collapse_outer st cc nn [] = (None, st)"
| "collapse_outer st cc nn ((i, a) # rest) =
     (case collapse_inner st cc i a nn of
        (Some e, st') \<Rightarrow> (Some e, st')
      | (None, st') \<Rightarrow> collapse_outer st' cc nn rest)"

text \<open>
  \<^verbatim>\<open>_update\<close>. A new micro-cluster is a fresh object, stored under the key
  \<^verbatim>\<open>len(self.micro_clusters)\<close>. The clock advances only when no exception was raised.
\<close>

definition update :: "dbstream \<Rightarrow> point \<Rightarrow> error option \<times> dbstream" where
  "update st x =
     (case find_fixed_radius_nn st x of
        Inl e \<Rightarrow> (Some e, st)
      | Inr neighbor_clusters \<Rightarrow>
          if length neighbor_clusters < 1 then
            (None,
             st\<lparr>heap := heap st @ [DBSTREAMMicroCluster x (time_stamp st) 1],
                micro_clusters :=
                  AList.update (length (micro_clusters st)) (length (heap st)) (micro_clusters st),
                time_stamp := time_stamp st + 1\<rparr>)
          else
            (case update_neighbors st x neighbor_clusters neighbor_clusters [] of
               (Some e, st1, cc) \<Rightarrow> (Some e, st1)
             | (None, st1, cc) \<Rightarrow>
                 (case collapse_outer st1 cc neighbor_clusters neighbor_clusters of
                    (Some e, st2) \<Rightarrow> (Some e, st2)
                  | (None, st2) \<Rightarrow> (None, st2\<lparr>time_stamp := time_stamp st2 + 1\<rparr>))))"

section \<open>Cleanup\<close>

definition weight_weak :: "dbstream \<Rightarrow> real" where
  "weight_weak st = 2 powr (- fading_factor st * real_of_int (cleanup_interval st))"

text \<open>The removal test of \<^verbatim>\<open>_cleanup\<close> for the micro-cluster object at address \<open>a\<close>.\<close>

definition is_weak :: "dbstream \<Rightarrow> addr \<Rightarrow> bool" where
  "is_weak st a =
     (weight (heap st ! a)
        * 2 powr (fading_factor st * real_of_int (time_stamp st - last_update (heap st ! a)))
      < weight_weak st)"

text \<open>
  The loop over \<^verbatim>\<open>self.micro_clusters.items()\<close> pops from the dictionary it iterates.
  The iterator compares the dictionary's size with the size it started from before it
  yields the next item (also before it reports exhaustion), so the step after the
  first pop raises RuntimeError: nothing after the first weak micro-cluster is looked
  at. \<open>first_weak\<close> finds that micro-cluster.
\<close>

fun first_weak :: "dbstream \<Rightarrow> (nat \<times> addr) list \<Rightarrow> nat option" where
  "first_weak st [] = None"
| "first_weak st ((i, a) # rest) = (if is_weak st a then Some i else first_weak st rest)"

text \<open>
  The loop over the shared-density entries: a weak entry is set to 0, with timestamp
  0, in place. \<open>ps\<close> are the pairs \<open>(i, j)\<close> in the order of the two nested loops.
\<close>

fun cleanup_edges :: "dbstream \<Rightarrow> (nat \<times> nat) list \<Rightarrow> error option \<times> dbstream" where
  "cleanup_edges st [] = (None, st)"
| "cleanup_edges st ((i, j) # ps) =
     (case (map_of (s st) i, map_of (s_t st) i) of
        (Some row, Some trow) \<Rightarrow>
          (case (map_of row j, map_of trow j) of
             (Some v, Some t) \<Rightarrow>
               if v * 2 powr (fading_factor st * real_of_int (time_stamp st - t))
                    < intersection_factor st * weight_weak st
               then cleanup_edges
                      (st\<lparr>s := AList.update i (AList.update j 0 row) (s st),
                          s_t := AList.update i (AList.update j 0 trow) (s_t st)\<rparr>) ps
               else cleanup_edges st ps
           | _ \<Rightarrow> (Some KeyError, st))
      | _ \<Rightarrow> (Some KeyError, st))"

definition edge_keys :: "(nat \<times> (nat \<times> real) list) list \<Rightarrow> (nat \<times> nat) list" where
  "edge_keys d = concat (map (\<lambda>(i, row). map (\<lambda>(j, v). (i, j)) row) d)"

definition cleanup :: "dbstream \<Rightarrow> error option \<times> dbstream" where
  "cleanup st =
     (case first_weak st (micro_clusters st) of
        Some i \<Rightarrow> (Some RuntimeError, st\<lparr>micro_clusters := AList.delete i (micro_clusters st)\<rparr>)
      | None \<Rightarrow> cleanup_edges st (edge_keys (s st)))"

section \<open>Learning\<close>

text \<open>
  \<^verbatim>\<open>learn_one\<close>: the update, then the cleanup when the clock is a multiple of the
  interval (\<^verbatim>\<open>%\<close> raises ZeroDivisionError on an interval of 0).
\<close>

definition learn_one :: "dbstream \<Rightarrow> point \<Rightarrow> error option \<times> dbstream" where
  "learn_one st x =
     (case update st x of
        (Some e, st1) \<Rightarrow> (Some e, st1)
      | (None, st1) \<Rightarrow>
          if cleanup_interval st1 = 0 then (Some ZeroDivisionError, st1)
          else if time_stamp st1 mod cleanup_interval st1 = 0 then cleanup st1
          else (None, st1))"

text \<open>
  The driver of the class docstring, \<^verbatim>\<open>for x in X: dbstream = dbstream.learn_one(x)\<close>:
  an exception ends the run.
\<close>

fun learn_many :: "dbstream \<Rightarrow> point list \<Rightarrow> error option \<times> dbstream" where
  "learn_many st [] = (None, st)"
| "learn_many st (x # xs) =
     (case learn_one st x of
        (Some e, st') \<Rightarrow> (Some e, st')
      | (None, st') \<Rightarrow> learn_many st' xs)"

text \<open>
  A state used as a concrete input below: the defaults with \<^verbatim>\<open>fading_factor = -1\<close> and
  \<^verbatim>\<open>cleanup_interval = 3\<close>, after the update step for the third of the points 0, 5, 10
  (each point far from the others, so each opened a micro-cluster).
\<close>

definition three_apart :: dbstream where
  "three_apart =
     \<lparr>time_stamp = 3, clustering_threshold = 1, fading_factor = - 1,
      cleanup_interval = 3, minimum_weight = 1, intersection_factor = 3/10,
      n_clusters = 0, clusters = [], centers = [],
      micro_clusters = [(0, 0), (1, 1), (2, 2)], s = [], s_t = [],
      heap = [\<lparr>center = [(0, 0)], last_update = 0, weight = 1\<rparr>,
              \<lparr>center = [(0, 5)], last_update = 1, weight = 1\<rparr>,
              \<lparr>center = [(0, 10)], last_update = 2, weight = 1\<rparr>]\<rparr>"

section \<open>Reachable states\<close>

text \<open>
  The states a DBSTREAM object can be in: the state after construction, and the state
  left by any call of \<^verbatim>\<open>learn_one\<close> or \<^verbatim>\<open>predict_one\<close>, whether the call returned or raised.
\<close>

inductive reachable :: "dbstream \<Rightarrow> dbstream \<Rightarrow> bool" for init :: dbstream where
  start: "reachable init init"
| learn: "reachable init st \<Longrightarrow> reachable init (snd (learn_one st x))"
| predict: "reachable init st \<Longrightarrow> reachable init (snd (predict_one st x))"

text \<open>
  The invariant behind C9: the two parameters of the fading are those of the
  construction, every object of the store has weight at least 1 and was last updated
  no later than the clock, and every reference of \<^verbatim>\<open>micro_clusters\<close> is an object of the
  store.
\<close>

definition store_ok :: "real \<Rightarrow> int \<Rightarrow> dbstream \<Rightarrow> bool" where
  "store_ok ff ci st \<longleftrightarrow>
     fading_factor st = ff \<and> cleanup_interval st = ci
     \<and> list_all (\<lambda>m. 1 \<le> weight m \<and> last_update m \<le> time_stamp st) (heap st)
     \<and> list_all (\<lambda>p. snd p < length (heap st)) (micro_clusters st)"

section \<open>Reducing a group by repeated merge\<close>

text \<open>
  The merge loop of \<^verbatim>\<open>_generate_clusters_from_labels\<close> on the values of the objects:
  \<^verbatim>\<open>macro_cluster = mcs_with_label_i[0]\<close>, then \<^verbatim>\<open>macro_cluster.merge(mcs_with_label_i[m])\<close>
  for the others in order. \<^verbatim>\<open>mcs_with_label_i[0]\<close> raises KeyError on an empty group.
\<close>

fun merge_into :: "micro_cluster \<Rightarrow> micro_cluster list \<Rightarrow> error + micro_cluster" where
  "merge_into macro [] = Inr macro"
| "merge_into macro (c # cs) =
     (case merge macro c of
        Inl e \<Rightarrow> Inl e
      | Inr m \<Rightarrow> merge_into m cs)"

fun merge_group :: "micro_cluster list \<Rightarrow> error + micro_cluster" where
  "merge_group [] = Inl KeyError"
| "merge_group (m # ms) = merge_into m ms"

text \<open>The component \<open>k\<close> of a center (0 for a key the center does not have).\<close>

definition coordinate :: "micro_cluster \<Rightarrow> nat \<Rightarrow> real" where
  "coordinate m k = (case map_of (center m) k of Some v \<Rightarrow> v | None \<Rightarrow> 0)"

section \<open>Entries of the shared-density graph\<close>

text \<open>\<^verbatim>\<open>d[i][j]\<close> for a dictionary of dictionaries, \<open>None\<close> where the source raises KeyError.\<close>

definition entry :: "('a \<times> ('b \<times> 'c) list) list \<Rightarrow> 'a \<Rightarrow> 'b \<Rightarrow> 'c option" where
  "entry d i j = (case map_of d i of None \<Rightarrow> None | Some row \<Rightarrow> map_of row j)"

text \<open>
  The pair \<open>(i, j)\<close> has no edge yet when \<^verbatim>\<open>s[i][j]\<close> or \<^verbatim>\<open>s_t[i][j]\<close> is missing (the
  \<^verbatim>\<open>try\<close> of the update then raises KeyError); it is a fresh edge when both are 0.
\<close>

definition edge_missing :: "dbstream \<Rightarrow> nat \<Rightarrow> nat \<Rightarrow> bool" where
  "edge_missing st i j \<longleftrightarrow> entry (s st) i j = None \<or> entry (s_t st) i j = None"

definition edge_fresh :: "dbstream \<Rightarrow> nat \<Rightarrow> nat \<Rightarrow> bool" where
  "edge_fresh st i j \<longleftrightarrow> entry (s st) i j = Some 0 \<and> entry (s_t st) i j = Some 0"

section \<open>The collapse loop: what a run of reversions can do\<close>




section \<open>A state with three simultaneous neighbours\<close>













section \<open>Evaluation of concrete runs\<close>

lemmas learn_defs = learn_one_def update_def find_fixed_radius_nn_def DBSTREAM_def
  DBSTREAMMicroCluster_def distance_def minkowski_distance_def cleanup_def is_weak_def
  weight_weak_def edge_keys_def gaussian_neighborhood_def fade_and_count_def
  update_shared_density_def powr_neg_numeral Let_def

lemmas predict_defs = predict_one_def recluster_def generate_weighted_adjacency_matrix_def
  adjacency_add_def generate_labels_def generate_clusters_from_labels_def merge_def
  distance_def minkowski_distance_def Let_def upto.simps

section \<open>Prediction and the stored micro-clusters\<close>

text \<open>
  C1. The claim: \<^verbatim>\<open>predict_one\<close> (which runs the reclustering) leaves every stored
  micro-cluster unchanged; a merge replaces, and never mutates, the stored objects.

  The code does not do this. \<^verbatim>\<open>macro_cluster = mcs_with_label_i[0]\<close> is the stored object
  itself and \<^verbatim>\<open>merge\<close> assigns to its attributes. The run below uses the defaults for the
  threshold, the interval, the intersection factor and the minimum weight, and
  \<^verbatim>\<open>fading_factor = 1\<close>, in one dimension: the points 0 and 1 create the micro-clusters 0
  and 1, and the point 1/2, seen twice, makes both of them neighbours and gives them a
  shared density of 1. Before the prediction micro-cluster 0 has center 0 and weight
  13/8; after \<^verbatim>\<open>predict_one\<close> the same entry of \<^verbatim>\<open>micro_clusters\<close> has center 14/27 and
  weight 27/8, those of the macro-cluster.
\<close>

theorem predict_one_overwrites_stored_micro_cluster:
  "(case learn_many (DBSTREAM 1 1 2 (3/10) 1) [[(0, 0)], [(0, 1)], [(0, 1/2)], [(0, 1/2)]] of
      (r, st) \<Rightarrow>
        r = None \<and> micro_clusters st = [(0, 0), (1, 1)]
        \<and> heap st ! 0 = \<lparr>center = [(0, 0)], last_update = 3, weight = 13/8\<rparr>
        \<and> (case predict_one st [(0, 0)] of
              (p, st') \<Rightarrow>
                p = Inr 0 \<and> micro_clusters st' = [(0, 0), (1, 1)]
                \<and> heap st' ! 0 = \<lparr>center = [(0, 14/27)], last_update = 3, weight = 27/8\<rparr>))"
  apply (simp add: learn_defs)
  apply (simp add: predict_defs)
  done

section \<open>Labelling\<close>

text \<open>
  C2. The claim: the labelling gives the same label to any two micro-clusters joined by
  a path of kept edges, each edge read in both directions, and the traversal enqueues
  the unlabelled neighbours of each newly visited node.

  The code does not do this. It enqueues the neighbours whose label \<^verbatim>\<open>is not None\<close>, that
  is the labelled ones, so the traversal never goes further than the direct successors
  of the node that opened the label. In the run below the micro-clusters 0, 1, 2 sit at
  0, 1, 2 and the points 1/2 and 3/2, each seen twice, give the kept edges 0-1 and 1-2:
  one connected component. The labels are 0, 0, 1 and the reclustering reports two
  clusters.
\<close>

theorem generate_labels_splits_connected_component:
  "(case learn_many (DBSTREAM 1 1 2 (3/10) 1)
           [[(0, 0)], [(0, 1)], [(0, 2)], [(0, 1/2)], [(0, 1/2)], [(0, 3/2)], [(0, 3/2)]] of
      (r, st) \<Rightarrow>
        r = None \<and> map fst (micro_clusters st) = [0, 1, 2]
        \<and> generate_weighted_adjacency_matrix st
            = Inr [(0, [(1, 64/111)]), (1, [(2, 64/111)])]
        \<and> generate_labels st [(0, [(1, 64/111)]), (1, [(2, 64/111)])]
            = Inr [(0, Some 0), (1, Some 0), (2, Some 1)]
        \<and> (case recluster st of (e, st') \<Rightarrow> e = None \<and> n_clusters st' = 2))"
  apply (simp add: learn_defs)
  apply (simp add: predict_defs)
  done

section \<open>Prediction without micro-clusters\<close>

text \<open>
  C3. The claim: with no micro-cluster, \<^verbatim>\<open>predict_one\<close> returns the default label 0
  rather than failing.

  The code does not do this. On a DBSTREAM that has learnt nothing, the labels are the
  empty dictionary and \<^verbatim>\<open>max(cluster_labels.values())\<close> raises ValueError before the scan
  that holds the default is reached; this holds for every configuration and every query
  point.
\<close>

theorem predict_one_without_micro_clusters_raises:
  "predict_one (DBSTREAM thr ff ci isf mw) x = (Inl ValueError, DBSTREAM thr ff ci isf mw)"
  by (simp add: predict_defs DBSTREAM_def)

section \<open>Cleanup\<close>

text \<open>
  C6. The claim: when the cleanup removes a micro-cluster it also drops or invalidates
  every shared-density edge that references it, so that afterwards no edge references
  an identifier absent from the cluster store.

  The code does not do this. In the run below (\<^verbatim>\<open>fading_factor = -1\<close>,
  \<^verbatim>\<open>cleanup_interval = 4\<close>) the micro-clusters 0 and 1 sit at 0 and 1 and the point 1/2,
  seen twice, gives the edge (0, 1) the value 1. The fourth \<^verbatim>\<open>learn_one\<close> runs the
  cleanup, which pops micro-cluster 0 and raises RuntimeError at the next step of the
  iteration; the loop over the edges is never reached. The store then holds only
  micro-cluster 1 while \<^verbatim>\<open>s[0][1] = 1\<close> is still there, and the next \<^verbatim>\<open>predict_one\<close>
  raises KeyError on \<^verbatim>\<open>self.micro_clusters[0]\<close>.
\<close>

theorem cleanup_leaves_dangling_edge:
  "(case learn_many (DBSTREAM 1 (- 1) 4 (3/10) 1) [[(0, 0)], [(0, 1)], [(0, 1/2)], [(0, 1/2)]] of
      (r, st) \<Rightarrow>
        r = Some RuntimeError \<and> micro_clusters st = [(1, 1)]
        \<and> s st = [(0, [(1, 1)])] \<and> s_t st = [(0, [(1, 3)])]
        \<and> fst (predict_one st [(0, 0)]) = Inl KeyError)"
  apply (simp add: learn_defs)
  apply (simp add: predict_defs)
  done

section \<open>Identifiers\<close>

text \<open>
  C7. The claim: the identifier given to a new micro-cluster never collides with the
  identifier of a live micro-cluster, also after deletions by the cleanup.

  The code does not do this: the identifier is \<^verbatim>\<open>len(self.micro_clusters)\<close>. In the run
  below (\<^verbatim>\<open>fading_factor = -1\<close>, \<^verbatim>\<open>cleanup_interval = 3\<close>) the points 0, 5, 10 open the
  micro-clusters 0, 1, 2, and the cleanup of the third \<^verbatim>\<open>learn_one\<close> pops micro-cluster 0
  (and raises RuntimeError). The store then has the two keys 1 and 2, so the next far
  point, 20, is stored under key 2: the live micro-cluster 2 (center 10) is replaced by
  the new object, and the store still has two entries.
\<close>

theorem new_identifier_collides_after_deletion:
  "(case learn_many (DBSTREAM 1 (- 1) 3 (3/10) 1) [[(0, 0)], [(0, 5)], [(0, 10)]] of
      (r, st) \<Rightarrow>
        r = Some RuntimeError \<and> micro_clusters st = [(1, 1), (2, 2)]
        \<and> center (heap st ! 2) = [(0, 10)]
        \<and> (case learn_one st [(0, 20)] of
              (r', st') \<Rightarrow>
                r' = None \<and> micro_clusters st' = [(1, 1), (2, 3)]
                \<and> center (heap st' ! 3) = [(0, 20)]))"
  by (simp add: learn_defs)

section \<open>A removal by the cleanup raises\<close>

lemma first_weak_finds:
  "(k, a) \<in> set mcs \<Longrightarrow> is_weak st a \<Longrightarrow>
     \<exists>i b. first_weak st mcs = Some i \<and> (i, b) \<in> set mcs \<and> is_weak st b"
proof (induction mcs)
  case Nil
  then show ?case by simp
next
  case (Cons p mcs)
  obtain i' b' where p: "p = (i', b')" by (cases p)
  show ?case
  proof (cases "is_weak st b'")
    case True
    with p show ?thesis by auto
  next
    case False
    with Cons.prems p have "(k, a) \<in> set mcs" by auto
    from Cons.IH [OF this Cons.prems(2)] False p show ?thesis by auto
  qed
qed

text \<open>
  C10. Whenever the update of a \<^verbatim>\<open>learn_one\<close> call succeeds, the cleanup is due and some
  micro-cluster of the store meets the removal test, the cleanup pops a micro-cluster
  that meets the test and then raises RuntimeError: \<^verbatim>\<open>learn_one\<close> ends abnormally, and
  the state it leaves is the updated state (clock advanced) with that one entry
  removed and nothing else of the cleanup done.
\<close>

theorem cleanup_removal_raises:
  assumes "update st0 x = (None, st)"
    and "cleanup_interval st \<noteq> 0"
    and "time_stamp st mod cleanup_interval st = 0"
    and "(k, a) \<in> set (micro_clusters st)"
    and "is_weak st a"
  shows "\<exists>i b. (i, b) \<in> set (micro_clusters st) \<and> is_weak st b
           \<and> i \<notin> fst ` set (AList.delete i (micro_clusters st))
           \<and> cleanup st
               = (Some RuntimeError, st\<lparr>micro_clusters := AList.delete i (micro_clusters st)\<rparr>)
           \<and> learn_one st0 x
               = (Some RuntimeError, st\<lparr>micro_clusters := AList.delete i (micro_clusters st)\<rparr>)"
proof -
  from first_weak_finds [OF assms(4) assms(5)]
  obtain i b where fw: "first_weak st (micro_clusters st) = Some i"
    and mem: "(i, b) \<in> set (micro_clusters st)" and weak: "is_weak st b"
    by blast
  have c: "cleanup st
             = (Some RuntimeError, st\<lparr>micro_clusters := AList.delete i (micro_clusters st)\<rparr>)"
    using fw by (simp add: cleanup_def)
  have l: "learn_one st0 x = cleanup st"
    using assms(1-3) by (simp add: learn_one_def)
  show ?thesis
    using mem weak c l by (auto simp: delete_notin_dom)
qed

text \<open>
  The theorem at the third point of the run 0, 5, 10 with \<^verbatim>\<open>fading_factor = -1\<close> and
  \<^verbatim>\<open>cleanup_interval = 3\<close>: micro-cluster 0 meets the test.
\<close>

theorem cleanup_removal_raises_witness:
  "update (snd (learn_many (DBSTREAM 1 (- 1) 3 (3/10) 1) [[(0, 0)], [(0, 5)]])) [(0, 10)]
     = (None, three_apart)
   \<and> cleanup_interval three_apart \<noteq> 0
   \<and> time_stamp three_apart mod cleanup_interval three_apart = 0
   \<and> (0, 0) \<in> set (micro_clusters three_apart)
   \<and> is_weak three_apart 0
   \<and> (\<exists>i b. (i, b) \<in> set (micro_clusters three_apart) \<and> is_weak three_apart b
         \<and> i \<notin> fst ` set (AList.delete i (micro_clusters three_apart))
         \<and> cleanup three_apart
             = (Some RuntimeError,
                three_apart\<lparr>micro_clusters := AList.delete i (micro_clusters three_apart)\<rparr>)
         \<and> learn_one (snd (learn_many (DBSTREAM 1 (- 1) 3 (3/10) 1) [[(0, 0)], [(0, 5)]])) [(0, 10)]
             = (Some RuntimeError,
                three_apart\<lparr>micro_clusters := AList.delete i (micro_clusters three_apart)\<rparr>))"
proof -
  have h1: "update (snd (learn_many (DBSTREAM 1 (- 1) 3 (3/10) 1) [[(0, 0)], [(0, 5)]])) [(0, 10)]
              = (None, three_apart)"
    by (simp add: learn_defs three_apart_def)
  have h2: "cleanup_interval three_apart \<noteq> 0"
    by (simp add: three_apart_def)
  have h3: "time_stamp three_apart mod cleanup_interval three_apart = 0"
    by (simp add: three_apart_def)
  have h4: "(0, 0) \<in> set (micro_clusters three_apart)"
    by (simp add: three_apart_def)
  have h5: "is_weak three_apart 0"
    by (simp add: three_apart_def is_weak_def weight_weak_def powr_neg_numeral)
  from cleanup_removal_raises [OF h1 h2 h3 h4 h5] h1 h2 h3 h4 h5 show ?thesis
    by blast
qed

section \<open>Weights in reachable states\<close>

subsection \<open>What the shared-density steps leave alone\<close>

lemma update_shared_density_frame:
  "heap (update_shared_density st i j) = heap st"
  "micro_clusters (update_shared_density st i j) = micro_clusters st"
  "time_stamp (update_shared_density st i j) = time_stamp st"
  "fading_factor (update_shared_density st i j) = fading_factor st"
  "cleanup_interval (update_shared_density st i j) = cleanup_interval st"
  "clustering_threshold (update_shared_density st i j) = clustering_threshold st"
  by (simp_all add: update_shared_density_def split: option.splits)

lemma shared_density_loop_frame:
  "heap (shared_density_loop st i js) = heap st
   \<and> micro_clusters (shared_density_loop st i js) = micro_clusters st
   \<and> time_stamp (shared_density_loop st i js) = time_stamp st
   \<and> fading_factor (shared_density_loop st i js) = fading_factor st
   \<and> cleanup_interval (shared_density_loop st i js) = cleanup_interval st
   \<and> clustering_threshold (shared_density_loop st i js) = clustering_threshold st"
  by (induction js arbitrary: st) (simp_all add: update_shared_density_frame)

lemma set_alist_update_subset: "set (AList.update k v al) \<subseteq> insert (k, v) (set al)"
  by (induction al) auto

lemma set_alist_delete_subset: "set (AList.delete k al) \<subseteq> set al"
  by (induction al) auto

lemma list_all_update:
  "list_all P h \<Longrightarrow> (a < length h \<Longrightarrow> P v) \<Longrightarrow> list_all P (h[a := v])"
proof (cases "a < length h")
  case True
  assume "list_all P h" and "a < length h \<Longrightarrow> P v"
  with True show ?thesis
    using set_update_subset_insert [of h a v] by (auto simp: list_all_iff)
next
  case False
  assume "list_all P h"
  with False show ?thesis by (simp add: list_update_beyond)
qed

lemma list_all_nth: "list_all P h \<Longrightarrow> a < length h \<Longrightarrow> P (h ! a)"
  by (simp add: list_all_iff)

lemma fade_and_count_ge_1: "0 \<le> v \<Longrightarrow> 1 \<le> fade_and_count st v t"
  by (simp add: fade_and_count_def)

lemma update_neighbors_ok:
  "store_ok ff ci st \<Longrightarrow> store_ok ff ci (fst (snd (update_neighbors st x nn rest cc)))"
proof (induction rest arbitrary: st cc)
  case Nil
  then show ?case by simp
next
  case (Cons p rest)
  obtain i a where p: "p = (i, a)" by (cases p)
  let ?mc = "heap st ! a"
  let ?mc1 = "?mc\<lparr>weight := fade_and_count st (weight ?mc) (last_update ?mc)\<rparr>"
  let ?st1 = "st\<lparr>heap := (heap st)[a := ?mc1]\<rparr>"
  have hp: "list_all (\<lambda>m. 1 \<le> weight m \<and> last_update m \<le> time_stamp st) (heap st)"
    using Cons.prems by (simp add: store_ok_def)
  have mc: "a < length (heap st) \<Longrightarrow> 1 \<le> weight ?mc \<and> last_update ?mc \<le> time_stamp st"
    using list_all_nth [OF hp] by simp
  have w1: "a < length (heap st) \<Longrightarrow> 1 \<le> weight ?mc1"
    using mc by (simp add: fade_and_count_ge_1)
  have ok1: "store_ok ff ci ?st1"
    using Cons.prems mc w1
    by (auto simp: store_ok_def intro!: list_all_update)
  show ?case
  proof (cases "move_center ?st1 x (center ?mc1) (center ?mc1)")
    case (Inl e)
    with ok1 p show ?thesis by (simp add: Let_def)
  next
    case (Inr c)
    let ?st2 = "?st1\<lparr>heap := (heap ?st1)[a := ?mc1\<lparr>center := c, last_update := time_stamp st\<rparr>]\<rparr>"
    have hp1: "list_all (\<lambda>m. 1 \<le> weight m \<and> last_update m \<le> time_stamp st) (heap ?st1)"
      using ok1 by (simp add: store_ok_def)
    have "list_all (\<lambda>m. 1 \<le> weight m \<and> last_update m \<le> time_stamp st)
            ((heap ?st1)[a := ?mc1\<lparr>center := c, last_update := time_stamp st\<rparr>])"
      using w1 by (intro list_all_update [OF hp1]) simp
    then have ok2: "store_ok ff ci ?st2"
      using ok1 by (simp add: store_ok_def)
    have "store_ok ff ci (shared_density_loop ?st2 i (map fst nn))"
      using ok2 by (simp add: store_ok_def shared_density_loop_frame)
    from Cons.IH [OF this] Inr p show ?thesis by (simp add: Let_def)
  qed
qed


lemma set_center_ok:
  assumes "store_ok ff ci st"
  shows "store_ok ff ci (st\<lparr>heap := (heap st)[a := (heap st ! a)\<lparr>center := c\<rparr>]\<rparr>)"
proof -
  have hp: "list_all (\<lambda>m. 1 \<le> weight m \<and> last_update m \<le> time_stamp st) (heap st)"
    using assms by (simp add: store_ok_def)
  have "list_all (\<lambda>m. 1 \<le> weight m \<and> last_update m \<le> time_stamp st)
          ((heap st)[a := (heap st ! a)\<lparr>center := c\<rparr>])"
    using list_all_nth [OF hp] by (intro list_all_update [OF hp]) simp
  then show ?thesis using assms by (simp add: store_ok_def)
qed

lemma collapse_inner_ok:
  "store_ok ff ci st \<Longrightarrow> store_ok ff ci (snd (collapse_inner st cc i a js))"
proof (induction js arbitrary: st)
  case Nil
  then show ?case by simp
next
  case (Cons p js)
  obtain j b where p: "p = (j, b)" by (cases p)
  note ok = Cons.prems
  have keep: "store_ok ff ci (snd (collapse_inner st cc i a js))"
    using ok by (rule Cons.IH)
  show ?case
  proof (cases "j > i")
    case False
    with keep p show ?thesis by simp
  next
    case True
    show ?thesis
    proof (cases "distance (center (heap st ! a)) (center (heap st ! b))")
      case (Inl e)
      with True ok p show ?thesis by simp
    next
      case (Inr d)
      show ?thesis
      proof (cases "d < clustering_threshold st")
        case False
        with True Inr keep p show ?thesis by simp
      next
        case close: True
        show ?thesis
        proof (cases "map_of cc i")
          case None
          with True Inr close ok p show ?thesis by simp
        next
          case (Some c_i)
          let ?st1 = "st\<lparr>heap := (heap st)[a := (heap st ! a)\<lparr>center := c_i\<rparr>]\<rparr>"
          have ok1: "store_ok ff ci ?st1" using ok by (rule set_center_ok)
          show ?thesis
          proof (cases "map_of cc j")
            case None
            with True Inr close Some ok1 p show ?thesis by (simp add: Let_def)
          next
            case cj: (Some c_j)
            let ?st2 = "?st1\<lparr>heap := (heap ?st1)[b := (heap ?st1 ! b)\<lparr>center := c_j\<rparr>]\<rparr>"
            have "store_ok ff ci ?st2" using ok1 by (rule set_center_ok)
            then have "store_ok ff ci (snd (collapse_inner ?st2 cc i a js))"
              by (rule Cons.IH)
            with True Inr close Some cj p show ?thesis by (simp add: Let_def)
          qed
        qed
      qed
    qed
  qed
qed

lemma collapse_outer_ok:
  "store_ok ff ci st \<Longrightarrow> store_ok ff ci (snd (collapse_outer st cc nn ps))"
proof (induction ps arbitrary: st)
  case Nil
  then show ?case by simp
next
  case (Cons p ps)
  obtain i a where p: "p = (i, a)" by (cases p)
  have ok1: "store_ok ff ci (snd (collapse_inner st cc i a nn))"
    using Cons.prems by (rule collapse_inner_ok)
  show ?case
  proof (cases "collapse_inner st cc i a nn")
    case (Pair r st')
    with ok1 have ok': "store_ok ff ci st'" by simp
    show ?thesis
      using Pair p ok' Cons.IH [OF ok'] by (cases r) simp_all
  qed
qed

lemma store_ok_tick:
  "store_ok ff ci st \<Longrightarrow> store_ok ff ci (st\<lparr>time_stamp := time_stamp st + 1\<rparr>)"
  by (auto simp: store_ok_def list_all_iff)

lemma update_ok:
  assumes "store_ok ff ci st"
  shows "store_ok ff ci (snd (update st x))"
proof (cases "find_fixed_radius_nn st x")
  case (Inl e)
  with assms show ?thesis by (simp add: update_def)
next
  case (Inr nn)
  show ?thesis
  proof (cases "length nn < 1")
    case True
    have "store_ok ff ci
            (st\<lparr>heap := heap st @ [DBSTREAMMicroCluster x (time_stamp st) 1],
                micro_clusters :=
                  AList.update (length (micro_clusters st)) (length (heap st)) (micro_clusters st),
                time_stamp := time_stamp st + 1\<rparr>)"
      using assms
        set_alist_update_subset [of "length (micro_clusters st)" "length (heap st)" "micro_clusters st"]
      by (fastforce simp: store_ok_def list_all_iff DBSTREAMMicroCluster_def)
    with Inr True show ?thesis by (simp add: update_def)
  next
    case False
    obtain r st1 cc where un: "update_neighbors st x nn nn [] = (r, st1, cc)"
      by (cases "update_neighbors st x nn nn []") auto
    have ok1: "store_ok ff ci st1"
      using update_neighbors_ok [OF assms, of x nn nn "[]"] un by simp
    show ?thesis
    proof (cases r)
      case (Some e)
      with Inr False un ok1 show ?thesis by (simp add: update_def)
    next
      case None
      obtain r2 st2 where co: "collapse_outer st1 cc nn nn = (r2, st2)"
        by (cases "collapse_outer st1 cc nn nn") auto
      have ok2: "store_ok ff ci st2"
        using collapse_outer_ok [OF ok1, of cc nn nn] co by simp
      show ?thesis
        using Inr False un None co ok2 store_ok_tick [OF ok2]
        by (cases r2) (simp_all add: update_def)
    qed
  qed
qed


lemma cleanup_edges_frame:
  "heap (snd (cleanup_edges st ps)) = heap st
   \<and> micro_clusters (snd (cleanup_edges st ps)) = micro_clusters st
   \<and> time_stamp (snd (cleanup_edges st ps)) = time_stamp st
   \<and> fading_factor (snd (cleanup_edges st ps)) = fading_factor st
   \<and> cleanup_interval (snd (cleanup_edges st ps)) = cleanup_interval st"
proof (induction ps arbitrary: st)
  case Nil
  show ?case by simp
next
  case (Cons p ps)
  obtain i j where p: "p = (i, j)" by (cases p)
  show ?case
    unfolding p by (simp add: Cons.IH split: option.splits)
qed

lemma cleanup_ok:
  assumes "store_ok ff ci st"
  shows "store_ok ff ci (snd (cleanup st))"
proof (cases "first_weak st (micro_clusters st)")
  case None
  with assms show ?thesis
    by (simp add: cleanup_def store_ok_def cleanup_edges_frame)
next
  case (Some i)
  with assms set_alist_delete_subset [of i "micro_clusters st"] show ?thesis
    by (auto simp: cleanup_def store_ok_def list_all_iff)
qed

lemma learn_one_ok:
  assumes "store_ok ff ci st"
  shows "store_ok ff ci (snd (learn_one st x))"
proof (cases "update st x")
  case (Pair r st1)
  have ok1: "store_ok ff ci st1"
    using update_ok [OF assms, of x] Pair by simp
  show ?thesis
    using Pair ok1 cleanup_ok [OF ok1]
    by (cases r) (simp_all add: learn_one_def)
qed

subsection \<open>The merges of the reclustering keep the invariant\<close>

lemma merge_fields:
  "merge m c = Inr r \<Longrightarrow> weight r = weight m + weight c \<and> last_update r = last_update m"
  by (auto simp: merge_def split: sum.splits)

lemma merge_all_ok:
  assumes "list_all P h" and "\<And>m. P m \<Longrightarrow> 1 \<le> weight m \<and> last_update m \<le> ts"
    and "\<And>m. 1 \<le> weight m \<and> last_update m \<le> ts \<Longrightarrow> P m"
    and "list_all (\<lambda>b. b < length h) bs"
  shows "list_all P (snd (merge_all h macro bs)) \<and> length (snd (merge_all h macro bs)) = length h"
  using assms(1,4)
proof (induction bs arbitrary: h)
  case Nil
  then show ?case by simp
next
  case (Cons b bs)
  show ?case
  proof (cases "merge (h ! macro) (h ! b)")
    case (Inl e)
    with Cons.prems show ?thesis by simp
  next
    case (Inr m)
    have pb: "P (h ! b)"
      using Cons.prems by (simp add: list_all_nth)
    have "macro < length h \<Longrightarrow> P m"
      using merge_fields [OF Inr] assms(2) [OF pb]
        assms(2) [OF list_all_nth [OF Cons.prems(1)], of macro]
      by (intro assms(3)) auto
    then have 1: "list_all P (h[macro := m])"
      by (rule list_all_update [OF Cons.prems(1)])
    have 2: "list_all (\<lambda>b. b < length (h[macro := m])) bs"
      using Cons.prems(2) by simp
    from Cons.IH [OF 1 2] Inr show ?thesis by simp
  qed
qed

lemma mcs_with_label_in_store:
  "mcs_with_label st i lbl = Inr as \<Longrightarrow> set as \<subseteq> snd ` set (micro_clusters st)"
proof (induction lbl arbitrary: as)
  case Nil
  then show ?case by simp
next
  case (Cons p lbl)
  obtain index l where p: "p = (index, l)" by (cases p)
  show ?case
  proof (cases "l = Some i")
    case False
    with Cons.prems p have "mcs_with_label st i lbl = Inr as" by simp
    then show ?thesis by (rule Cons.IH)
  next
    case True
    with Cons.prems p obtain a r where a: "map_of (micro_clusters st) index = Some a"
      and r: "mcs_with_label st i lbl = Inr r" and as: "as = a # r"
      by (auto split: option.splits sum.splits)
    from a have "(index, a) \<in> set (micro_clusters st)" by (rule map_of_SomeD)
    then have "a \<in> snd ` set (micro_clusters st)" by force
    with Cons.IH [OF r] as show ?thesis by simp
  qed
qed

lemma clusters_loop_ok:
  assumes "store_ok ff ci st"
  shows "store_ok ff ci (snd (clusters_loop st lbl is cl))"
  using assms
proof (induction "is" arbitrary: st cl)
  case Nil
  then show ?case by simp
next
  case (Cons i rest)
  note ok = Cons.prems
  show ?case
  proof (cases "mcs_with_label st i lbl")
    case (Inl e)
    with ok show ?thesis by simp
  next
    case (Inr as)
    show ?thesis
    proof (cases as)
      case Nil
      with Inr ok show ?thesis by simp
    next
      case (Cons macro others)
      have "set as \<subseteq> snd ` set (micro_clusters st)"
        using Inr by (rule mcs_with_label_in_store)
      then have inr: "list_all (\<lambda>b. b < length (heap st)) others"
        using ok Cons by (auto simp: store_ok_def list_all_iff)
      have hp: "list_all (\<lambda>m. 1 \<le> weight m \<and> last_update m \<le> time_stamp st) (heap st)"
        using ok by (simp add: store_ok_def)
      obtain r h where ma: "merge_all (heap st) macro others = (r, h)"
        by (cases "merge_all (heap st) macro others") auto
      have "list_all (\<lambda>m. 1 \<le> weight m \<and> last_update m \<le> time_stamp st) h \<and> length h = length (heap st)"
        using merge_all_ok [OF hp _ _ inr, of "time_stamp st" macro] ma by simp
      then have ok': "store_ok ff ci (st\<lparr>heap := h\<rparr>)"
        using ok by (simp add: store_ok_def)
      show ?thesis
        using Inr Cons ma ok' Cons.IH [OF ok'] by (cases r) simp_all
    qed
  qed
qed

lemma recluster_ok:
  assumes "store_ok ff ci st"
  shows "store_ok ff ci (snd (recluster st))"
proof -
  have g: "store_ok ff ci (snd (generate_clusters_from_labels st lbl))" for lbl
  proof (cases "max_label lbl")
    case (Inl e)
    with assms show ?thesis by (simp add: generate_clusters_from_labels_def)
  next
    case (Inr m)
    obtain r st' where cl: "clusters_loop st lbl [0..m] [] = (r, st')"
      by (cases "clusters_loop st lbl [0..m] []") auto
    with clusters_loop_ok [OF assms, of lbl "[0..m]" "[]"] have "store_ok ff ci st'" by simp
    with Inr cl show ?thesis
      by (cases r) (simp_all add: generate_clusters_from_labels_def)
  qed
  show ?thesis
  proof (cases "generate_weighted_adjacency_matrix st")
    case (Inl e)
    with assms show ?thesis by (simp add: recluster_def)
  next
    case (Inr w)
    show ?thesis
    proof (cases "generate_labels st w")
      case (Inl e)
      with Inr assms show ?thesis by (simp add: recluster_def)
    next
      case lb: (Inr lbl)
      obtain r st' where gc: "generate_clusters_from_labels st lbl = (r, st')"
        by (cases "generate_clusters_from_labels st lbl") auto
      with g [of lbl] have ok': "store_ok ff ci st'" by simp
      show ?thesis
        using Inr lb gc ok'
        by (cases r) (auto simp: recluster_def store_ok_def split: prod.splits)
    qed
  qed
qed

lemma predict_one_ok:
  assumes "store_ok ff ci st"
  shows "store_ok ff ci (snd (predict_one st x))"
  using recluster_ok [OF assms]
  by (auto simp: predict_one_def split: prod.splits option.splits)

lemma reachable_ok:
  assumes "reachable (DBSTREAM thr ff ci isf mw) st"
  shows "store_ok ff ci st"
  using assms
proof (induction rule: reachable.induct)
  case start
  show ?case by (simp add: store_ok_def DBSTREAM_def)
next
  case (learn st x)
  then show ?case by (simp add: learn_one_ok)
next
  case (predict st x)
  then show ?case by (simp add: predict_one_ok)
qed

lemma first_weak_None:
  "list_all (\<lambda>p. \<not> is_weak st (snd p)) mcs \<Longrightarrow> first_weak st mcs = None"
  by (induction mcs) auto

text \<open>
  C9, as the code has it. In every state reachable from a DBSTREAM built with
  \<open>fading_factor > 0\<close> and \<open>cleanup_interval > 0\<close>, every micro-cluster of the store has
  weight at least 1. Hence the projection
  \<^verbatim>\<open>weight * 2 ** (fading_factor * (time_stamp - last_update))\<close> of the cleanup is at least
  1, \<^verbatim>\<open>weight_weak\<close> is below 1, no micro-cluster meets the removal test, and the cleanup
  leaves \<^verbatim>\<open>micro_clusters\<close> as it is and does not raise RuntimeError. The bound on the
  weights needs only the fading factor; that \<^verbatim>\<open>weight_weak\<close> is below 1 needs the positive
  interval as well.
\<close>

theorem cleanup_never_removes:
  assumes "0 < ff" and "0 < ci" and "reachable (DBSTREAM thr ff ci isf mw) st"
  shows "(\<forall>(i, a) \<in> set (micro_clusters st).
            a < length (heap st) \<and> 1 \<le> weight (heap st ! a)
            \<and> 1 \<le> weight (heap st ! a)
                   * 2 powr (fading_factor st * real_of_int (time_stamp st - last_update (heap st ! a)))
            \<and> \<not> is_weak st a)
         \<and> weight_weak st < 1
         \<and> first_weak st (micro_clusters st) = None
         \<and> micro_clusters (snd (cleanup st)) = micro_clusters st
         \<and> fst (cleanup st) \<noteq> Some RuntimeError"
proof -
  have ok: "store_ok ff ci st" using assms(3) by (rule reachable_ok)
  then have ff: "fading_factor st = ff" and ci: "cleanup_interval st = ci"
    and hp: "list_all (\<lambda>m. 1 \<le> weight m \<and> last_update m \<le> time_stamp st) (heap st)"
    and rng: "list_all (\<lambda>p. snd p < length (heap st)) (micro_clusters st)"
    by (simp_all add: store_ok_def)
  have ww: "weight_weak st < 1"
  proof -
    have "0 < ff * real_of_int ci" using assms(1,2) by simp
    then have "2 powr (- ff * real_of_int ci) < 2 powr 0"
      by (intro powr_less_mono) simp_all
    then show ?thesis by (simp add: weight_weak_def ff ci)
  qed
  have each: "a < length (heap st) \<and> 1 \<le> weight (heap st ! a)
      \<and> 1 \<le> weight (heap st ! a)
             * 2 powr (fading_factor st * real_of_int (time_stamp st - last_update (heap st ! a)))
      \<and> \<not> is_weak st a" if "(i, a) \<in> set (micro_clusters st)" for i a
  proof -
    from that rng have a: "a < length (heap st)" by (auto simp: list_all_iff)
    from list_all_nth [OF hp a]
    have w: "1 \<le> weight (heap st ! a)" and t: "last_update (heap st ! a) \<le> time_stamp st"
      by simp_all
    have "0 \<le> ff * real_of_int (time_stamp st - last_update (heap st ! a))"
      using assms(1) t by simp
    then have "2 powr 0 \<le> 2 powr (ff * real_of_int (time_stamp st - last_update (heap st ! a)))"
      by (intro powr_mono) simp_all
    then have p: "1 \<le> 2 powr (ff * real_of_int (time_stamp st - last_update (heap st ! a)))"
      by simp
    have "1 * 1 \<le> weight (heap st ! a)
             * 2 powr (ff * real_of_int (time_stamp st - last_update (heap st ! a)))"
      using w p by (intro mult_mono) simp_all
    then have prod: "1 \<le> weight (heap st ! a)
             * 2 powr (fading_factor st * real_of_int (time_stamp st - last_update (heap st ! a)))"
      by (simp add: ff)
    with ww have "\<not> is_weak st a" by (simp add: is_weak_def)
    with a w prod show ?thesis by simp
  qed
  then have "list_all (\<lambda>p. \<not> is_weak st (snd p)) (micro_clusters st)"
    by (auto simp: list_all_iff)
  then have fw: "first_weak st (micro_clusters st) = None" by (rule first_weak_None)
  have "micro_clusters (snd (cleanup st)) = micro_clusters st"
    using fw by (simp add: cleanup_def cleanup_edges_frame)
  moreover have "fst (cleanup st) \<noteq> Some RuntimeError"
  proof -
    have "fst (cleanup_edges st' ps) \<noteq> Some RuntimeError" for st' ps
    proof (induction ps arbitrary: st')
      case Nil
      show ?case by simp
    next
      case (Cons p ps)
      obtain i j where p: "p = (i, j)" by (cases p)
      show ?case unfolding p by (simp add: Cons.IH split: option.splits)
    qed
    then show ?thesis using fw by (simp add: cleanup_def)
  qed
  ultimately show ?thesis using each ww fw by auto
qed

lemma reachable_learn_many:
  "reachable init st \<Longrightarrow> reachable init (snd (learn_many st xs))"
proof (induction xs arbitrary: st)
  case Nil
  then show ?case by simp
next
  case (Cons x xs)
  have r1: "reachable init (snd (learn_one st x))"
    using Cons.prems by (rule reachable.learn)
  show ?case
  proof (cases "learn_one st x")
    case (Pair r st')
    with r1 have r': "reachable init st'" by simp
    show ?thesis
      using Pair r' Cons.IH [OF r'] by (cases r) simp_all
  qed
qed

text \<open>
  The theorem at the state reached by learning the points 0, 1 and 1/2 with
  \<^verbatim>\<open>fading_factor = 1\<close> and \<^verbatim>\<open>cleanup_interval = 2\<close>.
\<close>

theorem cleanup_never_removes_witness:
  "(0::real) < 1 \<and> (0::int) < 2
   \<and> reachable (DBSTREAM 1 1 2 (3/10) 1)
        (snd (learn_many (DBSTREAM 1 1 2 (3/10) 1) [[(0, 0)], [(0, 1)], [(0, 1/2)]]))
   \<and> micro_clusters (snd (learn_many (DBSTREAM 1 1 2 (3/10) 1) [[(0, 0)], [(0, 1)], [(0, 1/2)]]))
       = [(0, 0), (1, 1)]
   \<and> 1 \<le> weight (heap (snd (learn_many (DBSTREAM 1 1 2 (3/10) 1) [[(0, 0)], [(0, 1)], [(0, 1/2)]])) ! 0)
   \<and> \<not> is_weak (snd (learn_many (DBSTREAM 1 1 2 (3/10) 1) [[(0, 0)], [(0, 1)], [(0, 1/2)]])) 0
   \<and> \<not> is_weak (snd (learn_many (DBSTREAM 1 1 2 (3/10) 1) [[(0, 0)], [(0, 1)], [(0, 1/2)]])) 1
   \<and> micro_clusters
        (snd (cleanup (snd (learn_many (DBSTREAM 1 1 2 (3/10) 1) [[(0, 0)], [(0, 1)], [(0, 1/2)]]))))
       = [(0, 0), (1, 1)]"
proof -
  let ?st = "snd (learn_many (DBSTREAM 1 1 2 (3/10) 1) [[(0, 0)], [(0, 1)], [(0, 1/2)]])"
  have r: "reachable (DBSTREAM 1 1 2 (3/10) 1) ?st"
    by (rule reachable_learn_many [OF reachable.start])
  have m: "micro_clusters ?st = [(0, 0), (1, 1)]"
    by (simp add: learn_defs)
  have p: "(0::real) < 1" and q: "(0::int) < 2" by simp_all
  from cleanup_never_removes [OF p q r] m r show ?thesis
    by simp
qed

text \<open>
  The claim as stated, for every reachable state with \<open>fading_factor > 0\<close>, fails for a
  negative cleanup interval, which the constructor accepts. With \<^verbatim>\<open>fading_factor = 1\<close> and
  \<^verbatim>\<open>cleanup_interval = -2\<close> the points 0 and 5 open the micro-clusters 0 and 1. After the
  second update the clock is 2, \<^verbatim>\<open>2 % -2 == 0\<close> runs the cleanup, and \<^verbatim>\<open>weight_weak\<close> is
  \<^verbatim>\<open>2 ** 2 = 4\<close>, not below 1: micro-cluster 1, of weight 1 and projection 2, meets the
  removal test, is popped, and \<^verbatim>\<open>learn_one\<close> raises RuntimeError.
\<close>

theorem cleanup_removes_with_negative_interval:
  "0 < fading_factor (DBSTREAM 1 1 (- 2) (3/10) 1)
   \<and> reachable (DBSTREAM 1 1 (- 2) (3/10) 1)
         (snd (learn_one (snd (learn_one (DBSTREAM 1 1 (- 2) (3/10) 1) [(0, 0)])) [(0, 5)]))
   \<and> (case learn_one (DBSTREAM 1 1 (- 2) (3/10) 1) [(0, 0)] of
         (r1, st1) \<Rightarrow>
           r1 = None \<and> micro_clusters st1 = [(0, 0)]
           \<and> micro_clusters (snd (update st1 [(0, 5)])) = [(0, 0), (1, 1)]
           \<and> weight (heap (snd (update st1 [(0, 5)])) ! 1) = 1
           \<and> weight_weak (snd (update st1 [(0, 5)])) = 4
           \<and> is_weak (snd (update st1 [(0, 5)])) 1
           \<and> (case learn_one st1 [(0, 5)] of
                 (r2, st2) \<Rightarrow> r2 = Some RuntimeError \<and> micro_clusters st2 = [(0, 0)]))"
proof -
  have 1: "0 < fading_factor (DBSTREAM 1 1 (- 2) (3/10) 1)"
    by (simp add: DBSTREAM_def)
  have 2: "reachable (DBSTREAM 1 1 (- 2) (3/10) 1)
         (snd (learn_one (snd (learn_one (DBSTREAM 1 1 (- 2) (3/10) 1) [(0, 0)])) [(0, 5)]))"
    by (intro reachable.learn reachable.start)
  have 3: "case learn_one (DBSTREAM 1 1 (- 2) (3/10) 1) [(0, 0)] of
         (r1, st1) \<Rightarrow>
           r1 = None \<and> micro_clusters st1 = [(0, 0)]
           \<and> micro_clusters (snd (update st1 [(0, 5)])) = [(0, 0), (1, 1)]
           \<and> weight (heap (snd (update st1 [(0, 5)])) ! 1) = 1
           \<and> weight_weak (snd (update st1 [(0, 5)])) = 4
           \<and> is_weak (snd (update st1 [(0, 5)])) 1
           \<and> (case learn_one st1 [(0, 5)] of
                 (r2, st2) \<Rightarrow> r2 = Some RuntimeError \<and> micro_clusters st2 = [(0, 0)])"
    by (simp add: learn_defs)
  from 1 2 3 show ?thesis by (intro conjI)
qed

section \<open>The merge as a weighted average\<close>

lemma merge_center_total:
  assumes "fst ` set c \<subseteq> fst ` set cc" and "ws + wc \<noteq> 0"
  shows "\<exists>r. merge_center c ws cc wc = Inr r \<and> map fst r = map fst c
           \<and> (\<forall>k v. map_of c k = Some v \<longrightarrow>
                 (\<exists>u. map_of cc k = Some u \<and> map_of r k = Some ((v * ws + u * wc) / (ws + wc))))"
  using assms(1)
proof (induction c)
  case Nil
  show ?case by simp
next
  case (Cons p c)
  obtain i v where p: "p = (i, v)" by (cases p)
  from Cons.prems p have "i \<in> fst ` set cc" by simp
  then obtain u where u: "map_of cc i = Some u"
    by (metis domD dom_map_of_conv_image_fst)
  from Cons.prems have "fst ` set c \<subseteq> fst ` set cc" by simp
  from Cons.IH [OF this] obtain r where r: "merge_center c ws cc wc = Inr r"
    and keys: "map fst r = map fst c"
    and vals: "\<forall>k v. map_of c k = Some v \<longrightarrow>
                 (\<exists>u. map_of cc k = Some u \<and> map_of r k = Some ((v * ws + u * wc) / (ws + wc)))"
    by blast
  show ?case
    using p u r keys vals assms(2) by auto
qed

lemma merge_total:
  assumes "set (map fst (center c)) = set (map fst (center m))" and "weight m + weight c \<noteq> 0"
  shows "\<exists>r. merge m c = Inr r \<and> weight r = weight m + weight c
           \<and> map fst (center r) = map fst (center m)
           \<and> (\<forall>k. coordinate r k * weight r
                    = coordinate m k * weight m + coordinate c k * weight c)"
proof -
  have sub: "fst ` set (center m) \<subseteq> fst ` set (center c)"
    using assms(1) by auto
  from merge_center_total [OF sub assms(2)]
  obtain r where r: "merge_center (center m) (weight m) (center c) (weight c) = Inr r"
    and keys: "map fst r = map fst (center m)"
    and vals: "\<forall>k v. map_of (center m) k = Some v \<longrightarrow>
                 (\<exists>u. map_of (center c) k = Some u
                    \<and> map_of r k = Some ((v * weight m + u * weight c) / (weight m + weight c)))"
    by blast
  let ?r = "m\<lparr>center := r, weight := weight m + weight c\<rparr>"
  have co: "coordinate ?r k * weight ?r
              = coordinate m k * weight m + coordinate c k * weight c" for k
  proof (cases "map_of (center m) k")
    case None
    then have nm: "k \<notin> fst ` set (center m)" by (simp add: map_of_eq_None_iff)
    with assms(1) have "k \<notin> fst ` set (center c)" by auto
    then have 1: "map_of (center c) k = None" by (simp add: map_of_eq_None_iff)
    from nm keys have "k \<notin> fst ` set r"
      by (metis list.set_map)
    then have 2: "map_of r k = None" by (simp add: map_of_eq_None_iff)
    from None 1 2 show ?thesis by (simp add: coordinate_def)
  next
    case (Some v)
    with vals obtain u where u: "map_of (center c) k = Some u"
      and rk: "map_of r k = Some ((v * weight m + u * weight c) / (weight m + weight c))"
      by blast
    from Some u rk assms(2) show ?thesis by (simp add: coordinate_def)
  qed
  show ?thesis
    using r keys co by (auto simp: merge_def)
qed

lemma merge_into_total:
  assumes "0 < weight acc"
    and "\<forall>c\<in>set cs. 0 \<le> weight c \<and> set (map fst (center c)) = set (map fst (center acc))"
  shows "\<exists>r. merge_into acc cs = Inr r
           \<and> weight r = weight acc + sum_list (map weight cs)
           \<and> map fst (center r) = map fst (center acc)
           \<and> (\<forall>k. coordinate r k * weight r
                    = coordinate acc k * weight acc
                      + sum_list (map (\<lambda>c. coordinate c k * weight c) cs))"
  using assms
proof (induction cs arbitrary: acc)
  case Nil
  show ?case by simp
next
  case (Cons c cs)
  have ks: "set (map fst (center c)) = set (map fst (center acc))" and wc: "0 \<le> weight c"
    using Cons.prems(2) by simp_all
  have nz: "weight acc + weight c \<noteq> 0"
    using Cons.prems(1) wc by simp
  from merge_total [OF ks nz] obtain m where m: "merge acc c = Inr m"
    and wm: "weight m = weight acc + weight c"
    and km: "map fst (center m) = map fst (center acc)"
    and cm: "\<forall>k. coordinate m k * weight m
                  = coordinate acc k * weight acc + coordinate c k * weight c"
    by blast
  have pos: "0 < weight m" using wm Cons.prems(1) wc by simp
  have rest: "\<forall>c\<in>set cs. 0 \<le> weight c \<and> set (map fst (center c)) = set (map fst (center m))"
    using Cons.prems(2) km by simp
  from Cons.IH [OF pos rest] obtain r where r: "merge_into m cs = Inr r"
    and wr: "weight r = weight m + sum_list (map weight cs)"
    and kr: "map fst (center r) = map fst (center m)"
    and cr: "\<forall>k. coordinate r k * weight r
                  = coordinate m k * weight m + sum_list (map (\<lambda>c. coordinate c k * weight c) cs)"
    by blast
  show ?case
    using m r wr kr cr wm km cm by (simp add: add.assoc)
qed


lemma merge_group_total:
  assumes "2 \<le> length ms"
    and "\<forall>m\<in>set ms. 0 \<le> weight m"
    and "length (filter (\<lambda>m. weight m = 0) ms) \<le> 1"
    and "\<forall>m\<in>set ms. set (map fst (center m)) = K"
  shows "\<exists>r. merge_group ms = Inr r
           \<and> weight r = sum_list (map weight ms) \<and> 0 < weight r
           \<and> set (map fst (center r)) = K
           \<and> (\<forall>k. coordinate r k
                    = sum_list (map (\<lambda>m. coordinate m k * weight m) ms) / sum_list (map weight ms))"
proof -
  from assms(1) obtain a b rest where ms: "ms = a # b # rest"
    by (cases ms; cases "tl ms") auto
  have wa: "0 \<le> weight a" and wb: "0 \<le> weight b"
    using assms(2) ms by simp_all
  have "\<not> (weight a = 0 \<and> weight b = 0)"
    using assms(3) ms by auto
  with wa wb have pos: "0 < weight a + weight b" by linarith
  then have nz: "weight a + weight b \<noteq> 0" by simp
  have kab: "set (map fst (center b)) = set (map fst (center a))"
    using assms(4) ms by simp
  from merge_total [OF kab nz] obtain ab where ab: "merge a b = Inr ab"
    and wab: "weight ab = weight a + weight b"
    and kk: "map fst (center ab) = map fst (center a)"
    and cab: "\<forall>k. coordinate ab k * weight ab
                  = coordinate a k * weight a + coordinate b k * weight b"
    by blast
  have pab: "0 < weight ab" using wab pos by simp
  have rest: "\<forall>c\<in>set rest. 0 \<le> weight c \<and> set (map fst (center c)) = set (map fst (center ab))"
    using assms(2,4) ms kk by simp
  from merge_into_total [OF pab rest] obtain r where r: "merge_into ab rest = Inr r"
    and wr: "weight r = weight ab + sum_list (map weight rest)"
    and kr: "map fst (center r) = map fst (center ab)"
    and cr: "\<forall>k. coordinate r k * weight r
                  = coordinate ab k * weight ab
                    + sum_list (map (\<lambda>c. coordinate c k * weight c) rest)"
    by blast
  have nonneg: "0 \<le> sum_list (map weight rest)"
    using assms(2) ms by (intro sum_list_nonneg) auto
  have w: "weight r = sum_list (map weight ms)"
    using wr wab ms by simp
  have wpos: "0 < weight r"
    using wr pab nonneg by simp
  have keys: "set (map fst (center r)) = K"
    using kr kk assms(4) ms by simp
  have "coordinate r k
          = sum_list (map (\<lambda>m. coordinate m k * weight m) ms) / sum_list (map weight ms)" for k
  proof -
    have "coordinate r k * weight r = sum_list (map (\<lambda>m. coordinate m k * weight m) ms)"
      using cr cab ms by simp
    then show ?thesis
      using wpos w by (simp add: field_simps)
  qed
  with r ab w wpos keys ms show ?thesis by simp
qed

lemma map_of_coordinate:
  "map_of (center m) k = (if k \<in> set (map fst (center m)) then Some (coordinate m k) else None)"
  by (cases "map_of (center m) k") (auto simp: coordinate_def map_of_eq_None_iff dest: map_of_SomeD intro: rev_image_eqI)

text \<open>
  C8, as the code has it. A group of two or more micro-clusters over the same
  dimensions, with non-negative weights of which at most one is zero, reduces by
  repeated merge to a micro-cluster whose weight is the sum of the weights and whose
  center is, component by component, the weight-weighted average of the centers; and
  every reordering of the group reduces to the same weight and the same center. (The
  arithmetic is exact, on reals.)
\<close>

theorem merge_group_weighted_average:
  assumes "2 \<le> length ms"
    and "\<forall>m\<in>set ms. 0 \<le> weight m"
    and "length (filter (\<lambda>m. weight m = 0) ms) \<le> 1"
    and "\<forall>m\<in>set ms. set (map fst (center m)) = K"
    and "mset ms' = mset ms"
  shows "\<exists>r r'. merge_group ms = Inr r \<and> merge_group ms' = Inr r'
           \<and> weight r = sum_list (map weight ms)
           \<and> set (map fst (center r)) = K
           \<and> (\<forall>k\<in>K. map_of (center r) k
                    = Some (sum_list (map (\<lambda>m. coordinate m k * weight m) ms)
                            / sum_list (map weight ms)))
           \<and> weight r' = weight r
           \<and> map_of (center r') = map_of (center r)"
proof -
  have set': "set ms' = set ms"
    using assms(5) by (rule mset_eq_setD)
  have len': "2 \<le> length ms'"
    using assms(1,5) by (metis size_mset)
  have nonneg': "\<forall>m\<in>set ms'. 0 \<le> weight m"
    using assms(2) set' by simp
  have "mset (filter (\<lambda>m. weight m = 0) ms') = mset (filter (\<lambda>m. weight m = 0) ms)"
    using assms(5) by simp
  then have "length (filter (\<lambda>m. weight m = 0) ms') = length (filter (\<lambda>m. weight m = 0) ms)"
    by (metis size_mset)
  with assms(3) have zero': "length (filter (\<lambda>m. weight m = 0) ms') \<le> 1" by simp
  have keys': "\<forall>m\<in>set ms'. set (map fst (center m)) = K"
    using assms(4) set' by simp
  have sums: "sum_list (map f ms') = sum_list (map f ms)" for f :: "micro_cluster \<Rightarrow> real"
  proof -
    have "mset (map f ms') = mset (map f ms)" using assms(5) by simp
    then show ?thesis by (metis sum_mset_sum_list)
  qed
  from merge_group_total [OF assms(1-4)] obtain r where r: "merge_group ms = Inr r"
    and wr: "weight r = sum_list (map weight ms)"
    and kr: "set (map fst (center r)) = K"
    and cr: "\<forall>k. coordinate r k
                  = sum_list (map (\<lambda>m. coordinate m k * weight m) ms) / sum_list (map weight ms)"
    by blast
  from merge_group_total [OF len' nonneg' zero' keys'] obtain r' where r': "merge_group ms' = Inr r'"
    and wr': "weight r' = sum_list (map weight ms')"
    and kr': "set (map fst (center r')) = K"
    and cr': "\<forall>k. coordinate r' k
                  = sum_list (map (\<lambda>m. coordinate m k * weight m) ms') / sum_list (map weight ms')"
    by blast
  have same: "map_of (center r') = map_of (center r)"
  proof
    fix k
    have "coordinate r' k = coordinate r k"
      using cr cr' sums by simp
    then show "map_of (center r') k = map_of (center r) k"
      using kr kr' by (simp add: map_of_coordinate)
  qed
  have "\<forall>k\<in>K. map_of (center r) k
          = Some (sum_list (map (\<lambda>m. coordinate m k * weight m) ms) / sum_list (map weight ms))"
    using kr cr by (simp add: map_of_coordinate)
  with r r' wr wr' kr same sums show ?thesis by simp
qed

text \<open>
  The claim as stated, for every group with non-negative weights, fails where two
  members have weight 0: merging those two divides by zero. In the order (0, 0, 1) of
  the weights the reduction raises ZeroDivisionError, in the order (0, 1, 0) it returns.
\<close>

theorem merge_group_zero_weights_counterexample:
  "merge_group [\<lparr>center = [(0, 0)], last_update = 0, weight = 0\<rparr>,
                \<lparr>center = [(0, 1)], last_update = 0, weight = 0\<rparr>,
                \<lparr>center = [(0, 2)], last_update = 0, weight = 1\<rparr>] = Inl ZeroDivisionError
   \<and> merge_group [\<lparr>center = [(0, 0)], last_update = 0, weight = 0\<rparr>,
                  \<lparr>center = [(0, 2)], last_update = 0, weight = 1\<rparr>,
                  \<lparr>center = [(0, 1)], last_update = 0, weight = 0\<rparr>]
       = Inr \<lparr>center = [(0, 2)], last_update = 0, weight = 1\<rparr>"
  by (simp add: merge_def)

lemma merge_all_merge_into:
  "merge_into (h ! macro) (map ((!) h) bs) = Inr m \<Longrightarrow> macro \<notin> set bs \<Longrightarrow> macro < length h \<Longrightarrow>
     merge_all h macro bs = (None, h[macro := m])"
proof (induction bs arbitrary: h)
  case Nil
  then have "h[macro := m] = h" by (simp add: list_update_same_conv)
  then show ?case by simp
next
  case (Cons b bs)
  from Cons.prems(1) obtain m1 where m1: "merge (h ! macro) (h ! b) = Inr m1"
    and rest: "merge_into m1 (map ((!) h) bs) = Inr m"
    by (auto split: sum.splits)
  let ?h1 = "h[macro := m1]"
  have same: "map ((!) ?h1) bs = map ((!) h) bs"
  proof (rule map_cong [OF refl])
    fix x assume "x \<in> set bs"
    with Cons.prems(2) have "macro \<noteq> x" by auto
    then show "?h1 ! x = h ! x" by simp
  qed
  have "?h1 ! macro = m1"
    using Cons.prems(3) by simp
  with rest have "merge_into (?h1 ! macro) (map ((!) ?h1) bs) = Inr m"
    by (simp only: same)
  from Cons.IH [OF this] Cons.prems(2,3) m1 show ?case by simp
qed

text \<open>
  The theorem at the weights 1, 2, 0 and the centers 0, 3, 6, against the order 0, 1, 2
  of the weights: weight 3 and center 2 both ways.
\<close>

theorem merge_group_weighted_average_witness:
  "2 \<le> length [\<lparr>center = [(0, 0)], last_update = 0, weight = 1\<rparr>,
                 \<lparr>center = [(0, 3)], last_update = 1, weight = 2\<rparr>,
                 \<lparr>center = [(0, 6)], last_update = 2, weight = 0\<rparr>]
   \<and> mset [\<lparr>center = [(0, 6)], last_update = 2, weight = 0\<rparr>,
            \<lparr>center = [(0, 0)], last_update = 0, weight = 1\<rparr>,
            \<lparr>center = [(0, 3)], last_update = 1, weight = 2\<rparr>]
       = mset [\<lparr>center = [(0, 0)], last_update = 0, weight = 1\<rparr>,
               \<lparr>center = [(0, 3)], last_update = 1, weight = 2\<rparr>,
               \<lparr>center = [(0, 6)], last_update = 2, weight = 0\<rparr>]
   \<and> (\<exists>r r'. merge_group [\<lparr>center = [(0, 0)], last_update = 0, weight = 1\<rparr>,
                            \<lparr>center = [(0, 3)], last_update = 1, weight = 2\<rparr>,
                            \<lparr>center = [(0, 6)], last_update = 2, weight = 0\<rparr>] = Inr r
         \<and> merge_group [\<lparr>center = [(0, 6)], last_update = 2, weight = 0\<rparr>,
                        \<lparr>center = [(0, 0)], last_update = 0, weight = 1\<rparr>,
                        \<lparr>center = [(0, 3)], last_update = 1, weight = 2\<rparr>] = Inr r'
         \<and> weight r = 3 \<and> map_of (center r) 0 = Some 2
         \<and> weight r' = 3 \<and> map_of (center r') 0 = Some 2)"
proof -
  let ?a = "\<lparr>center = [(0, 0)], last_update = 0, weight = 1\<rparr>"
  let ?b = "\<lparr>center = [(0, 3)], last_update = 1, weight = 2\<rparr>"
  let ?c = "\<lparr>center = [(0, 6)], last_update = 2, weight = 0\<rparr>"
  have h1: "2 \<le> length [?a, ?b, ?c]" by simp
  have h2: "\<forall>m\<in>set [?a, ?b, ?c]. 0 \<le> weight m" by simp
  have h3: "length (filter (\<lambda>m. weight m = 0) [?a, ?b, ?c]) \<le> 1" by simp
  have h4: "\<forall>m\<in>set [?a, ?b, ?c]. set (map fst (center m)) = {0}" by simp
  have h5: "mset [?c, ?a, ?b] = mset [?a, ?b, ?c]" by simp
  from merge_group_weighted_average [OF h1 h2 h3 h4 h5] h1 h5 show ?thesis
    by (auto simp: coordinate_def)
qed

section \<open>New entries of the shared-density graph\<close>

lemma entry_update:
  "entry (AList.update i' row d) i j = (if i = i' then map_of row j else entry d i j)"
  by (simp add: entry_def update_conv')

lemma update_shared_density_other_fresh:
  "edge_fresh st i j \<Longrightarrow> (i', j') \<noteq> (i, j) \<Longrightarrow> edge_fresh (update_shared_density st i' j') i j"
  by (auto simp: edge_fresh_def update_shared_density_def entry_update update_conv' entry_def
           split: option.splits)

lemma update_shared_density_other_missing:
  "edge_missing st i j \<Longrightarrow> (i', j') \<noteq> (i, j) \<Longrightarrow> edge_missing (update_shared_density st i' j') i j"
  by (auto simp: edge_missing_def update_shared_density_def entry_update update_conv' entry_def
           split: option.splits)

lemma update_shared_density_creates:
  "edge_missing st i j \<Longrightarrow> edge_fresh (update_shared_density st i j) i j"
  by (auto simp: edge_missing_def edge_fresh_def update_shared_density_def entry_update
                 update_conv' entry_def
           split: option.splits)


lemma shared_density_loop_fresh:
  "edge_fresh st i j \<Longrightarrow> i' \<noteq> i \<or> j \<notin> set js \<Longrightarrow> edge_fresh (shared_density_loop st i' js) i j"
proof (induction js arbitrary: st)
  case Nil
  then show ?case by simp
next
  case (Cons j' js)
  from Cons.prems(2) have ne: "(i', j') \<noteq> (i, j)" and rest: "i' \<noteq> i \<or> j \<notin> set js"
    by auto
  have "edge_fresh (if j' > i' then update_shared_density st i' j' else st) i j"
    using Cons.prems(1) ne by (simp add: update_shared_density_other_fresh)
  from Cons.IH [OF this rest] show ?case by simp
qed

lemma shared_density_loop_missing:
  "edge_missing st i j \<Longrightarrow> i' \<noteq> i \<or> j \<notin> set js \<Longrightarrow> edge_missing (shared_density_loop st i' js) i j"
proof (induction js arbitrary: st)
  case Nil
  then show ?case by simp
next
  case (Cons j' js)
  from Cons.prems(2) have ne: "(i', j') \<noteq> (i, j)" and rest: "i' \<noteq> i \<or> j \<notin> set js"
    by auto
  have "edge_missing (if j' > i' then update_shared_density st i' j' else st) i j"
    using Cons.prems(1) ne by (simp add: update_shared_density_other_missing)
  from Cons.IH [OF this rest] show ?case by simp
qed

lemma shared_density_loop_creates:
  "edge_missing st i j \<Longrightarrow> j \<in> set js \<Longrightarrow> distinct js \<Longrightarrow> i < j \<Longrightarrow>
     edge_fresh (shared_density_loop st i js) i j"
proof (induction js arbitrary: st)
  case Nil
  then show ?case by simp
next
  case (Cons j' js)
  show ?case
  proof (cases "j' = j")
    case True
    have "edge_fresh (update_shared_density st i j) i j"
      using Cons.prems(1) by (rule update_shared_density_creates)
    moreover have "j \<notin> set js" using Cons.prems(3) True by simp
    ultimately have "edge_fresh (shared_density_loop (update_shared_density st i j) i js) i j"
      by (intro shared_density_loop_fresh) simp_all
    with True Cons.prems(4) show ?thesis by simp
  next
    case False
    then have "edge_missing (if j' > i then update_shared_density st i j' else st) i j"
      using Cons.prems(1) by (simp add: update_shared_density_other_missing)
    moreover have "j \<in> set js" "distinct js" using Cons.prems(2,3) False by auto
    ultimately show ?thesis using Cons.IH Cons.prems(4) by simp
  qed
qed

lemma edge_heap_irrelevant:
  "edge_fresh (st\<lparr>heap := h\<rparr>) i j = edge_fresh st i j"
  "edge_missing (st\<lparr>heap := h\<rparr>) i j = edge_missing st i j"
  by (simp_all add: edge_fresh_def edge_missing_def)

lemma update_neighbors_edge:
  assumes "update_neighbors st x nn rest cc = (None, st1, cc1)"
    and "distinct (map fst rest)" and "distinct (map fst nn)"
    and "j \<in> fst ` set nn" and "i < j"
  shows "(edge_fresh st i j \<and> i \<notin> fst ` set rest \<longrightarrow> edge_fresh st1 i j)
       \<and> (edge_missing st i j \<and> i \<in> fst ` set rest \<longrightarrow> edge_fresh st1 i j)"
  using assms(1,2)
proof (induction rest arbitrary: st cc)
  case Nil
  then show ?case by simp
next
  case (Cons p rest)
  obtain i' a where p: "p = (i', a)" by (cases p)
  let ?mc = "heap st ! a"
  let ?mc1 = "?mc\<lparr>weight := fade_and_count st (weight ?mc) (last_update ?mc)\<rparr>"
  let ?st1 = "st\<lparr>heap := (heap st)[a := ?mc1]\<rparr>"
  from Cons.prems(1) p obtain c where
    c: "move_center ?st1 x (center ?mc1) (center ?mc1) = Inr c"
    by (cases "move_center ?st1 x (center ?mc1) (center ?mc1)") (auto simp: Let_def)
  let ?st2 = "?st1\<lparr>heap := (heap ?st1)[a := ?mc1\<lparr>center := c, last_update := time_stamp st\<rparr>]\<rparr>"
  let ?st3 = "shared_density_loop ?st2 i' (map fst nn)"
  have run: "update_neighbors ?st3 x nn rest (AList.update i' (center ?mc) cc) = (None, st1, cc1)"
    using Cons.prems(1) p c by (simp add: Let_def)
  have d: "distinct (map fst rest)" and notin: "i' \<notin> fst ` set rest"
    using Cons.prems(2) p by auto
  note IH = Cons.IH [OF run d]
  have f2: "edge_fresh ?st2 i j = edge_fresh st i j" and m2: "edge_missing ?st2 i j = edge_missing st i j"
    by (simp_all add: edge_fresh_def edge_missing_def)
  show ?case
  proof (intro conjI impI)
    assume a: "edge_fresh st i j \<and> i \<notin> fst ` set (p # rest)"
    with p have ne: "i' \<noteq> i" and nr: "i \<notin> fst ` set rest" by auto
    have "edge_fresh ?st3 i j"
      using a f2 ne by (intro shared_density_loop_fresh) simp_all
    with IH nr show "edge_fresh st1 i j" by blast
  next
    assume a: "edge_missing st i j \<and> i \<in> fst ` set (p # rest)"
    show "edge_fresh st1 i j"
    proof (cases "i' = i")
      case True
      have jin: "j \<in> set (map fst nn)" using assms(4) by simp
      have ms: "edge_missing ?st2 i j" using a m2 by simp
      have "edge_fresh (shared_density_loop ?st2 i (map fst nn)) i j"
        by (rule shared_density_loop_creates [OF ms jin assms(3) assms(5)])
      with True have "edge_fresh ?st3 i j" by simp
      moreover have "i \<notin> fst ` set rest" using notin True by simp
      ultimately show ?thesis using IH by blast
    next
      case False
      then have "edge_missing ?st3 i j"
        using a m2 by (intro shared_density_loop_missing) simp_all
      moreover have "i \<in> fst ` set rest" using a p False by auto
      ultimately show ?thesis using IH by blast
    qed
  qed
qed


lemma fixed_radius_scan_sub:
  "fixed_radius_scan st x mcs = Inr nn \<Longrightarrow>
     set nn \<subseteq> set mcs
     \<and> (distinct (map fst mcs) \<longrightarrow> distinct (map fst nn))
     \<and> (distinct (map snd mcs) \<longrightarrow> distinct (map snd nn))"
proof (induction mcs arbitrary: nn)
  case Nil
  then show ?case by simp
next
  case (Cons p mcs)
  obtain i a where p: "p = (i, a)" by (cases p)
  from Cons.prems p obtain d nn' where d: "distance (center (heap st ! a)) x = Inr d"
    and r: "fixed_radius_scan st x mcs = Inr nn'"
    and nn: "nn = (if d < clustering_threshold st then (i, a) # nn' else nn')"
    by (auto split: sum.splits if_splits)
  from Cons.IH [OF r] have sub: "set nn' \<subseteq> set mcs"
    and df: "distinct (map fst mcs) \<longrightarrow> distinct (map fst nn')"
    and ds: "distinct (map snd mcs) \<longrightarrow> distinct (map snd nn')"
    by simp_all
  from sub have sf: "fst ` set nn' \<subseteq> fst ` set mcs" and ss: "snd ` set nn' \<subseteq> snd ` set mcs"
    by auto
  show ?case
    using nn p sub df ds sf ss by (cases "d < clustering_threshold st") auto
qed

lemma collapse_inner_frame:
  "s (snd (collapse_inner st cc i a js)) = s st
   \<and> s_t (snd (collapse_inner st cc i a js)) = s_t st
   \<and> time_stamp (snd (collapse_inner st cc i a js)) = time_stamp st
   \<and> clustering_threshold (snd (collapse_inner st cc i a js)) = clustering_threshold st
   \<and> length (heap (snd (collapse_inner st cc i a js))) = length (heap st)"
proof (induction js arbitrary: st)
  case Nil
  show ?case by simp
next
  case (Cons p js)
  obtain j b where p: "p = (j, b)" by (cases p)
  show ?case
    unfolding p by (simp add: Cons.IH Let_def split: sum.splits option.splits)
qed

lemma collapse_outer_frame:
  "s (snd (collapse_outer st cc nn ps)) = s st
   \<and> s_t (snd (collapse_outer st cc nn ps)) = s_t st
   \<and> time_stamp (snd (collapse_outer st cc nn ps)) = time_stamp st
   \<and> clustering_threshold (snd (collapse_outer st cc nn ps)) = clustering_threshold st
   \<and> length (heap (snd (collapse_outer st cc nn ps))) = length (heap st)"
proof (induction ps arbitrary: st)
  case Nil
  show ?case by simp
next
  case (Cons p ps)
  obtain i a where p: "p = (i, a)" by (cases p)
  obtain r st' where ci: "collapse_inner st cc i a nn = (r, st')"
    by (cases "collapse_inner st cc i a nn") auto
  from collapse_inner_frame [of st cc i a nn] ci
  have f: "s st' = s st" "s_t st' = s_t st" "time_stamp st' = time_stamp st"
    "clustering_threshold st' = clustering_threshold st" "length (heap st') = length (heap st)"
    by simp_all
  show ?case
    using p ci f Cons.IH [of st'] by (cases r) simp_all
qed

text \<open>What a successful update is made of.\<close>

lemma update_neighbours_cases:
  assumes "update st x = (None, st')" and "find_fixed_radius_nn st x = Inr nn" and "nn \<noteq> []"
  shows "\<exists>st1 cc st2. update_neighbors st x nn nn [] = (None, st1, cc)
           \<and> collapse_outer st1 cc nn nn = (None, st2)
           \<and> st' = st2\<lparr>time_stamp := time_stamp st2 + 1\<rparr>"
proof -
  obtain r st1 cc where un: "update_neighbors st x nn nn [] = (r, st1, cc)"
    by (cases "update_neighbors st x nn nn []") auto
  obtain r2 st2 where co: "collapse_outer st1 cc nn nn = (r2, st2)"
    by (cases "collapse_outer st1 cc nn nn") auto
  from assms un co have "r = None"
    by (cases r) (auto simp: update_def)
  moreover from assms un co this have "r2 = None"
    by (cases r2) (auto simp: update_def)
  ultimately show ?thesis
    using assms un co by (auto simp: update_def)
qed

text \<open>
  C5, as the code has it. During a successful update, every pair \<open>i < j\<close> of
  simultaneous neighbours that has no shared-density entry yet (\<^verbatim>\<open>s[i][j]\<close> or
  \<^verbatim>\<open>s_t[i][j]\<close> missing) gets an entry with value 0 and with timestamp 0: both \<^verbatim>\<open>except\<close>
  branches write \<^verbatim>\<open>self.s_t[i][j] = 0\<close>, the same pair (0, 0) that the cleanup writes to
  clear an entry.
\<close>

theorem new_edge_is_zero_at_zero:
  assumes "distinct (map fst (micro_clusters st))"
    and "find_fixed_radius_nn st x = Inr nn"
    and "(i, a) \<in> set nn" and "(j, b) \<in> set nn" and "i < j"
    and "entry (s st) i j = None \<or> entry (s_t st) i j = None"
    and "update st x = (None, st')"
  shows "entry (s st') i j = Some 0 \<and> entry (s_t st') i j = Some 0"
proof -
  from assms(3) have ne: "nn \<noteq> []" by auto
  from fixed_radius_scan_sub [OF assms(2) [unfolded find_fixed_radius_nn_def]] assms(1)
  have dn: "distinct (map fst nn)" by simp
  from update_neighbours_cases [OF assms(7) assms(2) ne]
  obtain st1 cc st2 where un: "update_neighbors st x nn nn [] = (None, st1, cc)"
    and co: "collapse_outer st1 cc nn nn = (None, st2)"
    and st': "st' = st2\<lparr>time_stamp := time_stamp st2 + 1\<rparr>"
    by blast
  have jn: "j \<in> fst ` set nn" using assms(4) by force
  have "i \<in> fst ` set nn" using assms(3) by force
  moreover have "edge_missing st i j" using assms(6) by (simp add: edge_missing_def)
  ultimately have "edge_fresh st1 i j"
    using update_neighbors_edge [OF un dn dn jn assms(5)] by blast
  moreover have "s st2 = s st1" "s_t st2 = s_t st1"
    using collapse_outer_frame [of st1 cc nn nn] co by simp_all
  ultimately show ?thesis
    using st' by (simp add: edge_fresh_def)
qed

text \<open>
  The claim as stated gives the new entry the timestamp \<^verbatim>\<open>time_stamp\<close>. After the points
  0 and 1 the clock is 2 and the point 1/2 has both micro-clusters as neighbours; the
  update creates the entry (0, 1) with timestamp 0, not 2.
\<close>

theorem new_edge_timestamp_counterexample:
  "(case learn_many (DBSTREAM 1 1 2 (3/10) 1) [[(0, 0)], [(0, 1)]] of
      (r, st) \<Rightarrow>
        r = None \<and> time_stamp st = 2
        \<and> find_fixed_radius_nn st [(0, 1/2)] = Inr [(0, 0), (1, 1)]
        \<and> entry (s st) 0 1 = None
        \<and> (case update st [(0, 1/2)] of
              (r', st') \<Rightarrow>
                r' = None \<and> entry (s st') 0 1 = Some 0 \<and> entry (s_t st') 0 1 = Some 0))"
  by (simp add: learn_defs entry_def)

text \<open>The theorem at that same update.\<close>

theorem new_edge_is_zero_at_zero_witness:
  "distinct (map fst (micro_clusters (snd (learn_many (DBSTREAM 1 1 2 (3/10) 1) [[(0, 0)], [(0, 1)]]))))
   \<and> find_fixed_radius_nn (snd (learn_many (DBSTREAM 1 1 2 (3/10) 1) [[(0, 0)], [(0, 1)]])) [(0, 1/2)]
       = Inr [(0, 0), (1, 1)]
   \<and> (0::nat) < 1
   \<and> entry (s (snd (learn_many (DBSTREAM 1 1 2 (3/10) 1) [[(0, 0)], [(0, 1)]]))) 0 1 = None
   \<and> fst (update (snd (learn_many (DBSTREAM 1 1 2 (3/10) 1) [[(0, 0)], [(0, 1)]])) [(0, 1/2)]) = None
   \<and> entry (s (snd (update (snd (learn_many (DBSTREAM 1 1 2 (3/10) 1) [[(0, 0)], [(0, 1)]])) [(0, 1/2)]))) 0 1
       = Some 0
   \<and> entry (s_t (snd (update (snd (learn_many (DBSTREAM 1 1 2 (3/10) 1) [[(0, 0)], [(0, 1)]])) [(0, 1/2)]))) 0 1
       = Some 0"
proof -
  let ?st = "snd (learn_many (DBSTREAM 1 1 2 (3/10) 1) [[(0, 0)], [(0, 1)]])"
  let ?st' = "snd (update ?st [(0, 1/2)])"
  have h1: "distinct (map fst (micro_clusters ?st))" by (simp add: learn_defs)
  have h2: "find_fixed_radius_nn ?st [(0, 1/2)] = Inr [(0, 0), (1, 1)]" by (simp add: learn_defs)
  have h3: "(0, 0) \<in> set [(0::nat, 0::nat), (1, 1)]" by simp
  have h4: "(1, 1) \<in> set [(0::nat, 0::nat), (1, 1)]" by simp
  have h5: "(0::nat) < 1" by simp
  have e: "entry (s ?st) 0 1 = None" by (simp add: learn_defs entry_def)
  then have h6: "entry (s ?st) 0 1 = None \<or> entry (s_t ?st) 0 1 = None" by simp
  have f: "fst (update ?st [(0, 1/2)]) = None" by (simp add: learn_defs)
  then have h7: "update ?st [(0, 1/2)] = (None, ?st')" by (simp add: prod_eq_iff)
  from new_edge_is_zero_at_zero [OF h1 h2 h3 h4 h5 h6 h7] h1 h2 h5 e f show ?thesis
    by simp
qed

section \<open>Collapse prevention\<close>














section \<open>Three simultaneous neighbours\<close>




















end
